theory Spec2Isabelle
  imports Complex_Main "HOL-Library.Word" "HOL-Library.Log_Nat" "HOL-Library.AList"
begin

unbundle bit_operations_syntax

section \<open>Numbers and vectors\<close>

text \<open>
  The program is TypeScript on three.js. Coordinates and dimensions are JavaScript
  numbers; they are modelled as \<^typ>\<open>real\<close>, so the rounding of the coordinate
  arithmetic is outside the model. Node identifiers, loop counters and grid indices are
  integers small enough to be exact as doubles; they are modelled as \<^typ>\<open>int\<close> and
  \<^typ>\<open>nat\<close>. Two parts of the program depend on the machine numbers
  themselves, and there they are written out: the lattice hash, with the rounding of
  its products, and the serpentine deformation, whose unguarded products and sums
  overflow to the infinities and NaN on finite inputs.

  \<open>Vector3\<close> and \<open>Quaternion\<close> belong to three.js; the few methods the program
  calls are written out below from the library's definitions.
\<close>

datatype Vector3 = Vector3 (vx: real) (vy: real) (vz: real)

datatype Quaternion = Quaternion (qx: real) (qy: real) (qz: real) (qw: real)

definition vlength :: "Vector3 \<Rightarrow> real" where
  "vlength v = sqrt (vx v * vx v + vy v * vy v + vz v * vz v)"

definition multiplyScalar :: "Vector3 \<Rightarrow> real \<Rightarrow> Vector3" where
  "multiplyScalar v s = Vector3 (vx v * s) (vy v * s) (vz v * s)"

definition crossVectors :: "Vector3 \<Rightarrow> Vector3 \<Rightarrow> Vector3" where
  "crossVectors a b =
     Vector3 (vy a * vz b - vz a * vy b) (vz a * vx b - vx a * vz b) (vx a * vy b - vy a * vx b)"

definition dot :: "Vector3 \<Rightarrow> Vector3 \<Rightarrow> real" where
  "dot a b = vx a * vx b + vy a * vy b + vz a * vz b"

definition vsub :: "Vector3 \<Rightarrow> Vector3 \<Rightarrow> Vector3" where
  "vsub a b = Vector3 (vx a - vx b) (vy a - vy b) (vz a - vz b)"

definition addScaledVector :: "Vector3 \<Rightarrow> Vector3 \<Rightarrow> real \<Rightarrow> Vector3" where
  "addScaledVector v w s = Vector3 (vx v + vx w * s) (vy v + vy w * s) (vz v + vz w * s)"

definition distanceTo :: "Vector3 \<Rightarrow> Vector3 \<Rightarrow> real" where
  "distanceTo a b =
     (let dx = vx a - vx b; dy = vy a - vy b; dz = vz a - vz b
      in sqrt (dx * dx + dy * dy + dz * dz))"

definition setFromAxisAngle :: "Vector3 \<Rightarrow> real \<Rightarrow> Quaternion" where
  "setFromAxisAngle axis angle =
     (let halfAngle = angle / 2; s = sin halfAngle
      in Quaternion (vx axis * s) (vy axis * s) (vz axis * s) (cos halfAngle))"

definition applyQuaternion :: "Vector3 \<Rightarrow> Quaternion \<Rightarrow> Vector3" where
  "applyQuaternion v q =
     (let tx = 2 * (qy q * vz v - qz q * vy v);
          ty = 2 * (qz q * vx v - qx q * vz v);
          tz = 2 * (qx q * vy v - qy q * vx v)
      in Vector3 (vx v + qw q * tx + qy q * tz - qz q * ty)
                 (vy v + qw q * ty + qz q * tx - qx q * tz)
                 (vz v + qw q * tz + qx q * ty - qy q * tx))"

text \<open>\<open>MathUtils.lerp\<close> and \<open>MathUtils.clamp\<close> of three.js.\<close>

definition lerp :: "real \<Rightarrow> real \<Rightarrow> real \<Rightarrow> real" where
  "lerp a b t = (1 - t) * a + t * b"

definition clamp :: "real \<Rightarrow> real \<Rightarrow> real \<Rightarrow> real" where
  "clamp v lo hi = max lo (min hi v)"

section \<open>Hash noise\<close>

text \<open>
  \<open>hash3i\<close> works on doubles that hold integers. A double is either such an integer
  or not finite; \<open>None\<close> stands for every value that is not finite (an infinity or
  NaN), which the conversions to 32 bits read as 0.

  \<open>f64_round\<close> is the rounding of an exact integer result to the nearest double, ties
  to the even significand of 53 bits, overflowing from \<open>2 ^ 1024\<close>.
\<close>

definition f64_round :: "int \<Rightarrow> int option" where
  "f64_round n =
     (let a = \<bar>n\<bar> in
      if a < 2 ^ 53 then Some n
      else
        let e = nat (bitlen a - 53);
            q = a div 2 ^ e;
            r = a mod 2 ^ e;
            h = 2 ^ (e - 1);
            q' = (if r > h \<or> (r = h \<and> odd q) then q + 1 else q);
            m = q' * 2 ^ e
        in if m \<ge> 2 ^ 1024 then None else Some (sgn n * m))"

definition js_mul :: "int option \<Rightarrow> int option \<Rightarrow> int option" where
  "js_mul a b = (case (a, b) of (Some x, Some y) \<Rightarrow> f64_round (x * y) | _ \<Rightarrow> None)"

definition js_add :: "int option \<Rightarrow> int option \<Rightarrow> int option" where
  "js_add a b = (case (a, b) of (Some x, Some y) \<Rightarrow> f64_round (x + y) | _ \<Rightarrow> None)"

text \<open>\<open>ToInt32\<close> and \<open>ToUint32\<close> of ECMAScript share the bit pattern.\<close>

definition toInt32 :: "int option \<Rightarrow> 32 word" where
  "toInt32 a = (case a of None \<Rightarrow> 0 | Some n \<Rightarrow> word_of_int n)"

text \<open>
  \<open>n ^ (n >> k)\<close> followed by \<open>>>> 0\<close>: both operands are read as 32-bit integers,
  the shift is arithmetic, and the result is read back as unsigned.
\<close>

definition xorshift :: "nat \<Rightarrow> 32 word \<Rightarrow> 32 word" where
  "xorshift k w = w XOR signed_drop_bit k w"

definition hash3i :: "int \<Rightarrow> int \<Rightarrow> int \<Rightarrow> real" where
  "hash3i x y z =
     (let n = js_add (js_add (js_mul (Some x) (Some 374761393)) (js_mul (Some y) (Some 668265263)))
                     (js_mul (Some z) (Some 2147483647));
          n1 = xorshift 13 (toInt32 n);
          n2 = toInt32 (js_mul (Some (uint n1)) (Some 1274126177));
          n3 = xorshift 16 n2
      in real (unat n3) / 4294967296)"

section \<open>Curve and frame utilities\<close>

definition safeUnit :: "Vector3 \<Rightarrow> Vector3 \<Rightarrow> Vector3" where
  "safeUnit v fallback =
     (let len = vlength v in
      if len < 1 / 1000000000 then fallback else multiplyScalar v (1 / len))"

definition initialNormalFromTangent :: "Vector3 \<Rightarrow> Vector3" where
  "initialNormalFromTangent t =
     (let tn = safeUnit t (Vector3 1 0 0);
          up = Vector3 0 0 1;
          up = (if \<bar>dot tn up\<bar> > 92 / 100 then Vector3 1 0 0 else up);
          n = crossVectors tn up
      in safeUnit n (Vector3 0 1 0))"

definition transportNormal :: "Vector3 \<Rightarrow> Vector3 \<Rightarrow> Vector3 \<Rightarrow> Vector3" where
  "transportNormal prevT currT prevN =
     (let a = safeUnit prevT (Vector3 1 0 0);
          b = safeUnit currT (Vector3 1 0 0);
          axis = crossVectors a b;
          axisLen = vlength axis
      in if axisLen < 1 / 1000000000 then prevN
         else
           let axis = multiplyScalar axis (1 / axisLen);
               d = clamp (dot a b) (- 1) 1;
               angle = arccos d;
               q = setFromAxisAngle axis angle;
               n = applyQuaternion prevN q;
               n = addScaledVector n b (- dot n b)
           in safeUnit n prevN)"

definition cubicBezierPoint :: "Vector3 \<Rightarrow> Vector3 \<Rightarrow> Vector3 \<Rightarrow> Vector3 \<Rightarrow> real \<Rightarrow> Vector3" where
  "cubicBezierPoint p0 p1 p2 p3 t =
     (let it = 1 - t;
          b0 = it * it * it;
          b1 = 3 * it * it * t;
          b2 = 3 * it * t * t;
          b3 = t * t * t
      in Vector3 (vx p0 * b0 + vx p1 * b1 + vx p2 * b2 + vx p3 * b3)
                 (vy p0 * b0 + vy p1 * b1 + vy p2 * b2 + vy p3 * b3)
                 (vz p0 * b0 + vz p1 * b1 + vz p2 * b2 + vz p3 * b3))"

section \<open>Serpentine deformation\<close>

subsection \<open>Doubles that overflow\<close>

text \<open>
  \<open>serpentinize\<close> multiplies and adds without any guard on the size of its numbers, and
  its result depends on what a double does beyond its range. The numbers of this
  section are therefore doubles with their three special values: a finite number, the
  two infinities and NaN. A finite result whose magnitude exceeds the largest double
  becomes an infinity, and the special values combine as IEEE 754 prescribes. The
  rounding of a finite result is still left out, and so is the sign of a zero
  (\<open>serpentinize\<close> divides only by its \<open>total\<close>, which is at least \<open>1e-9\<close> or not
  finite, and by a positive \<open>taperFraction\<close>).
\<close>

datatype double = Finite real | PosInf | NegInf | NaN

definition maxDouble :: real where
  "maxDouble = (2 ^ 53 - 1) * 2 ^ 971"

definition isDouble :: "real \<Rightarrow> bool" where
  "isDouble x = (\<bar>x\<bar> \<le> maxDouble)"

definition overflow :: "real \<Rightarrow> double" where
  "overflow x = (if maxDouble < x then PosInf else if x < - maxDouble then NegInf else Finite x)"

fun d_neg :: "double \<Rightarrow> double" where
  "d_neg (Finite x) = Finite (- x)"
| "d_neg PosInf = NegInf"
| "d_neg NegInf = PosInf"
| "d_neg NaN = NaN"

fun d_add :: "double \<Rightarrow> double \<Rightarrow> double" where
  "d_add (Finite x) (Finite y) = overflow (x + y)"
| "d_add NaN b = NaN"
| "d_add a NaN = NaN"
| "d_add PosInf NegInf = NaN"
| "d_add NegInf PosInf = NaN"
| "d_add PosInf b = PosInf"
| "d_add NegInf b = NegInf"
| "d_add (Finite x) b = b"

definition d_sub :: "double \<Rightarrow> double \<Rightarrow> double" where
  "d_sub a b = d_add a (d_neg b)"

text \<open>The sign of a double that is not NaN, as \<open>-1\<close>, \<open>0\<close> or \<open>1\<close>.\<close>

fun d_sign :: "double \<Rightarrow> real" where
  "d_sign (Finite x) = sgn x"
| "d_sign PosInf = 1"
| "d_sign NegInf = - 1"
| "d_sign NaN = 0"

fun d_mul :: "double \<Rightarrow> double \<Rightarrow> double" where
  "d_mul (Finite x) (Finite y) = overflow (x * y)"
| "d_mul NaN b = NaN"
| "d_mul a NaN = NaN"
| "d_mul a b =
     (if d_sign a * d_sign b = 0 then NaN
      else if 0 < d_sign a * d_sign b then PosInf else NegInf)"

fun d_div :: "double \<Rightarrow> double \<Rightarrow> double" where
  "d_div (Finite x) (Finite y) =
     (if y = 0 then (if x = 0 then NaN else if 0 < x then PosInf else NegInf)
      else overflow (x / y))"
| "d_div NaN b = NaN"
| "d_div a NaN = NaN"
| "d_div (Finite x) b = Finite 0"
| "d_div a (Finite y) = (if 0 < d_sign a * (if y < 0 then - 1 else 1) then PosInf else NegInf)"
| "d_div a b = NaN"

fun d_sqrt :: "double \<Rightarrow> double" where
  "d_sqrt (Finite x) = (if x < 0 then NaN else Finite (sqrt x))"
| "d_sqrt PosInf = PosInf"
| "d_sqrt NegInf = NaN"
| "d_sqrt NaN = NaN"

fun d_sin :: "double \<Rightarrow> double" where
  "d_sin (Finite x) = Finite (sin x)"
| "d_sin a = NaN"

text \<open>\<open>Number.isFinite\<close>.\<close>

fun d_isFinite :: "double \<Rightarrow> bool" where
  "d_isFinite (Finite x) = True"
| "d_isFinite a = False"

text \<open>The comparison \<open>a < b\<close>; it is false as soon as one side is NaN.\<close>

fun d_less :: "double \<Rightarrow> double \<Rightarrow> bool" where
  "d_less (Finite x) (Finite y) = (x < y)"
| "d_less NaN b = False"
| "d_less a NaN = False"
| "d_less a NegInf = False"
| "d_less PosInf b = False"
| "d_less a b = True"

text \<open>
  A vector whose components are such doubles. The input points of \<open>serpentinize\<close> are
  finite vectors; \<open>ofVector3\<close> reads one as a vector of doubles.
\<close>

datatype DVector3 = DVector3 (dvx: double) (dvy: double) (dvz: double)

definition ofVector3 :: "Vector3 \<Rightarrow> DVector3" where
  "ofVector3 v = DVector3 (Finite (vx v)) (Finite (vy v)) (Finite (vz v))"

definition nanVector :: DVector3 where
  "nanVector = DVector3 NaN NaN NaN"

fun finiteVector :: "DVector3 \<Rightarrow> Vector3 option" where
  "finiteVector (DVector3 (Finite x) (Finite y) (Finite z)) = Some (Vector3 x y z)"
| "finiteVector v = None"

text \<open>\<open>a.clone().sub(b)\<close> and \<open>a.distanceTo(b)\<close> on two finite vectors.\<close>

definition d_vsub :: "Vector3 \<Rightarrow> Vector3 \<Rightarrow> DVector3" where
  "d_vsub a b =
     DVector3 (d_sub (Finite (vx a)) (Finite (vx b)))
              (d_sub (Finite (vy a)) (Finite (vy b)))
              (d_sub (Finite (vz a)) (Finite (vz b)))"

definition d_distanceTo :: "Vector3 \<Rightarrow> Vector3 \<Rightarrow> double" where
  "d_distanceTo a b =
     (let dx = d_sub (Finite (vx a)) (Finite (vx b));
          dy = d_sub (Finite (vy a)) (Finite (vy b));
          dz = d_sub (Finite (vz a)) (Finite (vz b))
      in d_sqrt (d_add (d_add (d_mul dx dx) (d_mul dy dy)) (d_mul dz dz)))"

text \<open>
  The two frame utilities, called on a tangent that may have infinite components. The
  normal they return is either a finite vector or the vector of three NaN, for which
  \<open>None\<close> stands.

  A tangent with a component that is not finite has a length that is not finite, and no
  comparison finds it below \<open>1e-9\<close>; \<open>safeUnit\<close> multiplies the tangent by
  \<open>1 / length\<close>, that is by 0 or by NaN, which turns that component into NaN. The cross
  product then has a NaN component and its length is NaN, so no early return is taken;
  the axis, the clamped dot product, the angle, the quaternion and the rotated normal
  all hold NaN, and the last \<open>safeUnit\<close> multiplies by \<open>1 / NaN\<close>: the normal returned
  is the vector of three NaN. A previous normal of three NaN is returned as it is by the
  early return of \<open>transportNormal\<close>, and rotated into three NaN otherwise.

  On finite vectors the result is finite. Its value is taken from the exact functions
  above: rounding, and the overflow of the squared length of a tangent longer than about
  \<open>1e154\<close> (\<open>safeUnit\<close> then returns the zero vector), change the value but leave it
  finite.
\<close>

definition d_initialNormalFromTangent :: "DVector3 \<Rightarrow> Vector3 option" where
  "d_initialNormalFromTangent t =
     (case finiteVector t of
        Some a \<Rightarrow> Some (initialNormalFromTangent a)
      | None \<Rightarrow> None)"

definition d_transportNormal :: "DVector3 \<Rightarrow> DVector3 \<Rightarrow> Vector3 option \<Rightarrow> Vector3 option" where
  "d_transportNormal prevT currT prevN =
     (case (finiteVector prevT, finiteVector currT, prevN) of
        (Some a, Some b, Some n) \<Rightarrow> Some (transportNormal a b n)
      | _ \<Rightarrow> None)"

text \<open>\<open>p.clone().addScaledVector(n, s)\<close> with such a normal.\<close>

definition d_addScaledVector :: "Vector3 \<Rightarrow> Vector3 option \<Rightarrow> double \<Rightarrow> DVector3" where
  "d_addScaledVector p n s =
     (let v = (case n of Some m \<Rightarrow> ofVector3 m | None \<Rightarrow> nanVector)
      in DVector3 (d_add (Finite (vx p)) (d_mul (dvx v) s))
                  (d_add (Finite (vy p)) (d_mul (dvy v) s))
                  (d_add (Finite (vz p)) (d_mul (dvz v) s)))"

subsection \<open>The deformation\<close>

text \<open>
  The first loop of \<open>serpentinize\<close>: the array \<open>cum\<close> of cumulative lengths and the
  running \<open>total\<close> (\<open>totalLen\<close> here).
\<close>

definition arcStep :: "Vector3 list \<Rightarrow> nat \<Rightarrow> double list \<times> double \<Rightarrow> double list \<times> double" where
  "arcStep points i s =
     (let totalLen = d_add (snd s) (d_distanceTo (points ! (i + 1)) (points ! i))
      in (fst s @ [totalLen], totalLen))"

definition arcLengths :: "Vector3 list \<Rightarrow> double list \<times> double" where
  "arcLengths points = fold (arcStep points) [0..<length points - 1] ([Finite 0], Finite 0)"

text \<open>
  The second loop runs only on three points or more, so every index read is in range.
  The tangent \<open>t\<close> at index \<open>i\<close>:
\<close>

definition serpTangent :: "Vector3 list \<Rightarrow> nat \<Rightarrow> DVector3" where
  "serpTangent points i =
     (if i = 0 then d_vsub (points ! 1) (points ! 0)
      else if i = length points - 1
        then d_vsub (points ! (length points - 1)) (points ! (length points - 2))
      else d_vsub (points ! (i + 1)) (points ! (i - 1)))"

text \<open>
  The body of the second loop. The state is the output so far, the previous tangent
  and the previous normal.
\<close>

definition taperEnvelope :: "real \<Rightarrow> double \<Rightarrow> double" where
  "taperEnvelope taperFraction u =
     (if taperFraction > 0 then
        let envelope =
              (if d_less u (Finite taperFraction) then d_div u (Finite taperFraction)
               else if d_less (d_sub (Finite 1) (Finite taperFraction)) u
                 then d_div (d_sub (Finite 1) u) (Finite taperFraction)
               else Finite 1)
        in d_mul (d_mul envelope envelope) (d_sub (Finite 3) (d_mul (Finite 2) envelope))
      else Finite 1)"

definition serpStep ::
  "Vector3 list \<Rightarrow> double list \<Rightarrow> double \<Rightarrow> real \<Rightarrow> real \<Rightarrow> real \<Rightarrow> nat \<Rightarrow>
   DVector3 list \<times> DVector3 \<times> Vector3 option \<Rightarrow>
   DVector3 list \<times> DVector3 \<times> Vector3 option" where
  "serpStep points cum totalLen frequency amplitude taperFraction i s =
     (let out = fst s; prevT = fst (snd s); prevN = snd (snd s);
          t = serpTangent points i;
          n = d_transportNormal prevT t prevN;
          u = d_div (cum ! i) totalLen;
          envelope = taperEnvelope taperFraction u;
          theta = d_mul (d_mul (d_mul (Finite pi) (Finite 2)) (Finite frequency)) u;
          disp = d_mul (d_mul (d_sin theta) (Finite amplitude)) envelope
      in (out @ [d_addScaledVector (points ! i) n disp], t, n))"

text \<open>
  \<open>serpentinize\<close>. The two early returns give back the input array, read here as
  vectors of doubles.
\<close>

definition serpentinize :: "Vector3 list \<Rightarrow> real \<Rightarrow> real \<Rightarrow> real \<Rightarrow> DVector3 list" where
  "serpentinize points frequency amplitude taperFraction =
     (if length points < 3 then map ofVector3 points
      else
        let cum = fst (arcLengths points); totalLen = snd (arcLengths points)
        in if d_less totalLen (Finite (1 / 1000000000)) then map ofVector3 points
           else
             let prevT = d_vsub (points ! 1) (points ! 0);
                 prevN = d_initialNormalFromTangent prevT
             in fst (fold (serpStep points cum totalLen frequency amplitude taperFraction)
                       [0..<length points] ([], prevT, prevN)))"

section \<open>The network and the furniture parameters\<close>

datatype FurnitureType = Chair | Table | Stool | Bench | Shelf | Vase | Recliner | Lamp | Mobius

datatype FurniturePattern = Linear | Voronoi | Gyroid | Triangular

record FurnitureParams =
  width :: real
  height :: real
  depth :: real
  seatHeight :: real
  pattern :: FurniturePattern

text \<open>
  The two arrays every generator fills. Node identifiers are positions in \<open>nodes\<close>;
  an edge is a pair of numbers, kept as \<^typ>\<open>int\<close> because the Bench and Shelf
  builders compute identifiers by subtraction.
\<close>

record NetworkData =
  nodes :: "Vector3 list"
  edges :: "(int \<times> int) list"

text \<open>\<open>nodes.push(v) - 1\<close>: the new node's position, and the extended array.\<close>

definition addNode :: "NetworkData \<Rightarrow> real \<Rightarrow> real \<Rightarrow> real \<Rightarrow> int \<times> NetworkData" where
  "addNode g x y z = (int (length (nodes g)), g\<lparr>nodes := nodes g @ [Vector3 x y z]\<rparr>)"

definition link :: "NetworkData \<Rightarrow> int \<Rightarrow> int \<Rightarrow> NetworkData" where
  "link g a b = g\<lparr>edges := edges g @ [(a, b)]\<rparr>"

text \<open>
  \<open>Math.random()\<close> is modelled by a sequence \<open>rnd\<close> of outcomes and a counter of the
  calls made so far: the \<open>k\<close>-th call returns \<open>rnd k\<close>. A statement for every \<open>rnd\<close>
  is a statement for every outcome of the sampling.
\<close>

type_synonym random_source = "nat \<Rightarrow> real"

section \<open>Shape classifier\<close>

definition inBox ::
  "real \<Rightarrow> real \<Rightarrow> real \<Rightarrow> real \<Rightarrow> real \<Rightarrow> real \<Rightarrow> real \<Rightarrow> real \<Rightarrow> real \<Rightarrow> bool" where
  "inBox x y z bx by bz bw bh bd =
     (\<bar>x - bx\<bar> \<le> bw / 2 \<and> y \<ge> by \<and> y \<le> by + bh \<and> \<bar>z - bz\<bar> \<le> bd / 2)"

definition isInsideFurniture ::
  "FurnitureType \<Rightarrow> real \<Rightarrow> real \<Rightarrow> real \<Rightarrow> FurnitureParams \<Rightarrow> bool" where
  "isInsideFurniture type x y z params =
     (let w2 = width params / 2; d2 = depth params / 2 in
      if type = Table then
        (let legThick = width params * 0.15;
             topThick = height params * 0.1;
             inTop = inBox x y z 0 (height params - topThick) 0 (width params) topThick (depth params);
             inLegFL = inBox x y z (- w2 + legThick / 2) 0 (d2 - legThick / 2) legThick (height params) legThick;
             inLegFR = inBox x y z (w2 - legThick / 2) 0 (d2 - legThick / 2) legThick (height params) legThick;
             inLegBL = inBox x y z (- w2 + legThick / 2) 0 (- d2 + legThick / 2) legThick (height params) legThick;
             inLegBR = inBox x y z (w2 - legThick / 2) 0 (- d2 + legThick / 2) legThick (height params) legThick
         in inTop \<or> inLegFL \<or> inLegFR \<or> inLegBL \<or> inLegBR)
      else if type = Chair then
        (let legThick = width params * 0.12;
             seatThick = height params * 0.08;
             backThick = depth params * 0.15;
             inLegFL = inBox x y z (- w2 + legThick / 2) 0 (d2 - legThick / 2) legThick (seatHeight params) legThick;
             inLegFR = inBox x y z (w2 - legThick / 2) 0 (d2 - legThick / 2) legThick (seatHeight params) legThick;
             inLegBL = inBox x y z (- w2 + legThick / 2) 0 (- d2 + legThick / 2) legThick (seatHeight params) legThick;
             inLegBR = inBox x y z (w2 - legThick / 2) 0 (- d2 + legThick / 2) legThick (seatHeight params) legThick;
             inSeat = inBox x y z 0 (seatHeight params) 0 (width params) seatThick (depth params);
             inBack = inBox x y z 0 (seatHeight params) (- d2 + backThick / 2) (width params)
                        (height params - seatHeight params) backThick
         in inLegFL \<or> inLegFR \<or> inLegBL \<or> inLegBR \<or> inSeat \<or> inBack)
      else if type = Stool then
        (let rTop = width params / 2;
             rBot = width params / 1.5;
             rAtY = lerp rBot rTop (y / height params)
         in x * x + z * z \<le> rAtY * rAtY \<and> y \<ge> 0 \<and> y \<le> height params)
      else if type = Bench then
        (let topThick = height params * 0.15;
             legThick = width params * 0.1;
             inTop = inBox x y z 0 (height params - topThick) 0 (width params) topThick (depth params);
             inLegL = inBox x y z (- w2 + legThick / 2) 0 0 legThick (height params) (depth params);
             inLegR = inBox x y z (w2 - legThick / 2) 0 0 legThick (height params) (depth params)
         in inTop \<or> inLegL \<or> inLegR)
      else if type = Vase then
        (let baseRadius = width params * 0.4;
             t = y / height params;
             bulge = sin (t * pi) * 0.3;
             rad = baseRadius + bulge + (t * 0.1)
         in x * x + z * z \<le> rad * rad \<and> y \<ge> 0 \<and> y \<le> height params)
      else inBox x y z 0 0 0 (width params) (height params) (depth params))"

section \<open>Volumetric pattern generators\<close>

text \<open>
  The three nested \<open>for\<close> loops over a grid, outermost first, with the loop body
  acting on the state.
\<close>

definition for3 ::
  "int list \<Rightarrow> int list \<Rightarrow> int list \<Rightarrow> (int \<Rightarrow> int \<Rightarrow> int \<Rightarrow> 's \<Rightarrow> 's) \<Rightarrow> 's \<Rightarrow> 's" where
  "for3 xs ys zs body s = fold (\<lambda>x. fold (\<lambda>y. fold (\<lambda>z. body x y z) zs) ys) xs s"

text \<open>The local closure \<open>idx\<close> of both grid generators.\<close>

definition idx :: "int \<Rightarrow> int \<Rightarrow> int \<Rightarrow> int \<Rightarrow> int \<Rightarrow> int" where
  "idx nx ny x y z = x + y * nx + z * nx * ny"

text \<open>
  \<open>nodeMap\<close> is a JavaScript \<open>Map\<close>: \<open>set\<close> on a new key appends an entry, \<open>set\<close> on
  a key already present replaces its value in place, and \<open>forEach\<close> visits the entries
  in that order. This is an association list under \<^const>\<open>AList.update\<close>, read with
  \<^const>\<open>map_of\<close>.
\<close>

type_synonym nodeMap = "(int \<times> int) list"

text \<open>The remainder \<open>a % b\<close> of JavaScript takes the sign of the dividend.\<close>

definition js_rem :: "int \<Rightarrow> int \<Rightarrow> int" where
  "js_rem a b = sgn a * (\<bar>a\<bar> mod \<bar>b\<bar>)"

text \<open>
  The grid coordinates a connection pass computes back from a key. When \<open>nx * ny = 0\<close>
  JavaScript divides by zero and a coordinate is NaN, so every neighbour key is NaN and
  is in no map: \<open>None\<close>.
\<close>

definition decodeGrid :: "int \<Rightarrow> int \<Rightarrow> int \<Rightarrow> (int \<times> int \<times> int) option" where
  "decodeGrid nx ny gridId =
     (if nx * ny = 0 then None
      else
        let z = gridId div (nx * ny);
            y = (gridId - z * nx * ny) div nx;
            x = js_rem gridId nx
        in Some (x, y, z))"

definition connectNeighbors ::
  "int \<Rightarrow> int \<Rightarrow> nodeMap \<Rightarrow> int \<Rightarrow> (int \<times> int \<times> int) list \<Rightarrow> NetworkData \<Rightarrow> NetworkData" where
  "connectNeighbors nx ny nodeMap realIdx neighbors g =
     fold (\<lambda>(nx_coord, ny_coord, nz_coord) g.
             let nid = idx nx ny nx_coord ny_coord nz_coord
             in case map_of nodeMap nid of
                  Some other \<Rightarrow> link g realIdx other
                | None \<Rightarrow> g)
          neighbors g"

subsection \<open>Gyroid\<close>

definition gyroidValue :: "real \<Rightarrow> real \<Rightarrow> real \<Rightarrow> real" where
  "gyroidValue wx wy wz =
     (let scale = 8;
          gx = wx * scale;
          gy = wy * scale;
          gz = wz * scale
      in sin gx * cos gy + sin gy * cos gz + sin gz * cos gx)"

definition gyroidPoint :: "FurnitureParams \<Rightarrow> int \<Rightarrow> int \<Rightarrow> int \<Rightarrow> Vector3" where
  "gyroidPoint params x y z =
     (let res = 0.08;
          offsetX = - width params / 2 - res;
          offsetY = - res;
          offsetZ = - depth params / 2 - res
      in Vector3 (offsetX + real_of_int x * res) (offsetY + real_of_int y * res)
           (offsetZ + real_of_int z * res))"

definition gyroidKeep :: "FurnitureType \<Rightarrow> FurnitureParams \<Rightarrow> int \<Rightarrow> int \<Rightarrow> int \<Rightarrow> bool" where
  "gyroidKeep type params x y z =
     (let w = gyroidPoint params x y z in
      if \<not> isInsideFurniture type (vx w) (vy w) (vz w) params then False
      else \<bar>gyroidValue (vx w) (vy w) (vz w)\<bar> < 0.5)"

definition gyroidCell ::
  "FurnitureType \<Rightarrow> FurnitureParams \<Rightarrow> int \<Rightarrow> int \<Rightarrow> int \<Rightarrow> int \<Rightarrow> int \<Rightarrow>
   NetworkData \<times> nodeMap \<Rightarrow> NetworkData \<times> nodeMap" where
  "gyroidCell type params nx ny x y z s =
     (if gyroidKeep type params x y z then
        let w = gyroidPoint params x y z;
            (realIdx, g) = addNode (fst s) (vx w) (vy w) (vz w)
        in (g, AList.update (idx nx ny x y z) realIdx (snd s))
      else s)"

definition gyroidConnect :: "int \<Rightarrow> int \<Rightarrow> nodeMap \<Rightarrow> int \<times> int \<Rightarrow> NetworkData \<Rightarrow> NetworkData" where
  "gyroidConnect nx ny nodeMap entry g =
     (let gridId = fst entry; realIdx = snd entry in
      case decodeGrid nx ny gridId of
        None \<Rightarrow> g
      | Some (x, y, z) \<Rightarrow>
          connectNeighbors nx ny nodeMap realIdx [(x + 1, y, z), (x, y + 1, z), (x, y, z + 1)] g)"

definition generateVolumeGyroid ::
  "NetworkData \<Rightarrow> FurnitureParams \<Rightarrow> FurnitureType \<Rightarrow> NetworkData" where
  "generateVolumeGyroid g0 params type =
     (let res = 0.08;
          nx = \<lceil>width params / res\<rceil> + 2;
          ny = \<lceil>height params / res\<rceil> + 2;
          nz = \<lceil>depth params / res\<rceil> + 2;
          s = for3 [0..nx - 1] [0..ny - 1] [0..nz - 1] (gyroidCell type params nx ny) (g0, [])
      in fold (gyroidConnect nx ny (snd s)) (snd s) (fst s))"

subsection \<open>Triangular\<close>

definition triangularPoint :: "FurnitureParams \<Rightarrow> int \<Rightarrow> int \<Rightarrow> int \<Rightarrow> Vector3" where
  "triangularPoint params x y z =
     (let cellSize = 0.15;
          offsetX = - width params / 2;
          offsetY = 0;
          offsetZ = - depth params / 2
      in Vector3 (offsetX + real_of_int x * cellSize) (offsetY + real_of_int y * cellSize)
           (offsetZ + real_of_int z * cellSize))"

definition triangularCell ::
  "FurnitureType \<Rightarrow> FurnitureParams \<Rightarrow> int \<Rightarrow> int \<Rightarrow> int \<Rightarrow> int \<Rightarrow> int \<Rightarrow>
   NetworkData \<times> nodeMap \<Rightarrow> NetworkData \<times> nodeMap" where
  "triangularCell type params nx ny x y z s =
     (let w = triangularPoint params x y z in
      if isInsideFurniture type (vx w) (vy w) (vz w) params then
        let (realIdx, g) = addNode (fst s) (vx w) (vy w) (vz w)
        in (g, AList.update (idx nx ny x y z) realIdx (snd s))
      else s)"

definition neighborOffsets :: "(int \<times> int \<times> int) list" where
  "neighborOffsets =
     [(1, 0, 0), (0, 1, 0), (0, 0, 1), (1, 1, 0), (1, 0, 1), (0, 1, 1), (1, 1, 1)]"

definition triangularConnect ::
  "int \<Rightarrow> int \<Rightarrow> nodeMap \<Rightarrow> int \<times> int \<Rightarrow> NetworkData \<Rightarrow> NetworkData" where
  "triangularConnect nx ny nodeMap entry g =
     (let gridId = fst entry; realIdx = snd entry in
      case decodeGrid nx ny gridId of
        None \<Rightarrow> g
      | Some (x, y, z) \<Rightarrow>
          connectNeighbors nx ny nodeMap realIdx
            (map (\<lambda>(dx, dy, dz). (x + dx, y + dy, z + dz)) neighborOffsets) g)"

definition generateVolumeTriangular ::
  "NetworkData \<Rightarrow> FurnitureParams \<Rightarrow> FurnitureType \<Rightarrow> NetworkData" where
  "generateVolumeTriangular g0 params type =
     (let cellSize = 0.15;
          nx = \<lceil>width params / cellSize\<rceil>;
          ny = \<lceil>height params / cellSize\<rceil>;
          nz = \<lceil>depth params / cellSize\<rceil>;
          s = for3 [0..nx] [0..ny] [0..nz] (triangularCell type params nx ny) (g0, [])
      in fold (triangularConnect nx ny (snd s)) (snd s) (fst s))"

subsection \<open>Voronoi\<close>

text \<open>
  One attempt of the rejection sampling. The state is the network, the accepted
  \<open>points\<close> (identifier and position) and the number of random numbers drawn so far.
\<close>

definition voronoiSample ::
  "random_source \<Rightarrow> FurnitureType \<Rightarrow> FurnitureParams \<Rightarrow>
   NetworkData \<times> (int \<times> Vector3) list \<times> nat \<Rightarrow> NetworkData \<times> (int \<times> Vector3) list \<times> nat" where
  "voronoiSample rnd type params s =
     (let g = fst s; points = fst (snd s); k = snd (snd s);
          x = (rnd k - 0.5) * width params;
          y = rnd (k + 1) * height params;
          z = (rnd (k + 2) - 0.5) * depth params
      in if isInsideFurniture type x y z params then
           let px = x + (rnd (k + 3) - 0.5) * 0.05;
               py = y + (rnd (k + 4) - 0.5) * 0.05;
               pz = z + (rnd (k + 5) - 0.5) * 0.05;
               (pid, g) = addNode g px py pz
           in (g, points @ [(pid, Vector3 px py pz)], k + 6)
         else (g, points, k + 3))"

text \<open>The \<open>while\<close> loop: it stops at \<open>count\<close> points or after \<open>count * 10\<close> attempts.\<close>

function voronoiLoop ::
  "random_source \<Rightarrow> FurnitureType \<Rightarrow> FurnitureParams \<Rightarrow> int \<Rightarrow> int \<Rightarrow>
   NetworkData \<times> (int \<times> Vector3) list \<times> nat \<Rightarrow> NetworkData \<times> (int \<times> Vector3) list \<times> nat" where
  "voronoiLoop rnd type params count attempts s =
     (if int (length (fst (snd s))) < count \<and> attempts < count * 10
      then voronoiLoop rnd type params count (attempts + 1) (voronoiSample rnd type params s)
      else s)"
  by pat_completeness auto
termination
  by (relation "measure (\<lambda>(rnd, type, params, count, attempts, s). nat (count * 10 - attempts))")
    auto

declare voronoiLoop.simps [simp del]

text \<open>
  \<open>Math.pow(volumeApprox / count, 1/3) * 1.8\<close>. For a negative quotient \<open>Math.pow\<close>
  returns NaN, and every comparison with NaN is false: \<open>None\<close>.
\<close>

definition voronoiThreshold :: "real \<Rightarrow> int \<Rightarrow> real option" where
  "voronoiThreshold volumeApprox count =
     (let q = volumeApprox / real_of_int count in
      if q < 0 then None
      else
        let avgDist = q powr (1 / 3)
        in Some (avgDist * 1.8))"

definition belowThreshold :: "real \<Rightarrow> real option \<Rightarrow> bool" where
  "belowThreshold d threshold = (case threshold of None \<Rightarrow> False | Some t \<Rightarrow> d < t)"

definition voronoiConnect ::
  "(int \<times> Vector3) list \<Rightarrow> real option \<Rightarrow> NetworkData \<Rightarrow> NetworkData" where
  "voronoiConnect points threshold g =
     fold (\<lambda>i. fold (\<lambda>j g.
                  let d = distanceTo (snd (points ! i)) (snd (points ! j))
                  in if belowThreshold d threshold
                     then link g (fst (points ! i)) (fst (points ! j))
                     else g)
                [i + 1..<length points])
          [0..<length points] g"

definition voronoiCount :: "FurnitureParams \<Rightarrow> int" where
  "voronoiCount params =
     (let volumeApprox = width params * height params * depth params;
          density = 600
      in max 50 \<lfloor>volumeApprox * density\<rfloor>)"

definition generateVolumeVoronoi ::
  "random_source \<Rightarrow> NetworkData \<Rightarrow> FurnitureParams \<Rightarrow> FurnitureType \<Rightarrow> NetworkData" where
  "generateVolumeVoronoi rnd g0 params type =
     (let volumeApprox = width params * height params * depth params;
          count = voronoiCount params;
          s = voronoiLoop rnd type params count 0 (g0, [], 0);
          points = fst (snd s);
          threshold = voronoiThreshold volumeApprox count
      in voronoiConnect points threshold (fst s))"



section \<open>Skeletal pattern generators\<close>

definition generateLinearChair :: "NetworkData \<Rightarrow> FurnitureParams \<Rightarrow> NetworkData" where
  "generateLinearChair g0 params =
     (let w2 = width params / 2;
          d2 = depth params / 2;
          (fl_b, g) = addNode g0 (- w2) 0 d2;
          (fr_b, g) = addNode g w2 0 d2;
          (bl_b, g) = addNode g (- w2) 0 (- d2);
          (br_b, g) = addNode g w2 0 (- d2);
          (fl_s, g) = addNode g (- w2) (seatHeight params) d2;
          (fr_s, g) = addNode g w2 (seatHeight params) d2;
          (bl_s, g) = addNode g (- w2) (seatHeight params) (- d2);
          (br_s, g) = addNode g w2 (seatHeight params) (- d2);
          (bl_t, g) = addNode g (- w2) (height params) (- d2);
          (br_t, g) = addNode g w2 (height params) (- d2);
          g = link g fl_b fl_s; g = link g fr_b fr_s;
          g = link g bl_b bl_s; g = link g br_b br_s;
          g = link g fl_s fr_s; g = link g fr_s br_s;
          g = link g br_s bl_s; g = link g bl_s fl_s;
          g = link g fl_s br_s; g = link g fr_s bl_s;
          g = link g bl_s bl_t; g = link g br_s br_t;
          g = link g bl_t br_t;
          g = link g bl_t br_s; g = link g br_t bl_s;
          stretch_h = seatHeight params * 0.3;
          (fl_str, g) = addNode g (- w2) stretch_h d2;
          (fr_str, g) = addNode g w2 stretch_h d2;
          (bl_str, g) = addNode g (- w2) stretch_h (- d2);
          (br_str, g) = addNode g w2 stretch_h (- d2);
          g = link g fl_str bl_str;
          g = link g fr_str br_str
      in g)"

definition generateLinearTable :: "NetworkData \<Rightarrow> FurnitureParams \<Rightarrow> NetworkData" where
  "generateLinearTable g0 params =
     (let w2 = width params / 2;
          d2 = depth params / 2;
          (fl_b, g) = addNode g0 (- w2) 0 d2;
          (fr_b, g) = addNode g w2 0 d2;
          (bl_b, g) = addNode g (- w2) 0 (- d2);
          (br_b, g) = addNode g w2 0 (- d2);
          (fl_t, g) = addNode g (- w2) (height params) d2;
          (fr_t, g) = addNode g w2 (height params) d2;
          (bl_t, g) = addNode g (- w2) (height params) (- d2);
          (br_t, g) = addNode g w2 (height params) (- d2);
          g = link g fl_b fl_t; g = link g fr_b fr_t;
          g = link g bl_b bl_t; g = link g br_b br_t;
          g = link g fl_t fr_t; g = link g fr_t br_t;
          g = link g br_t bl_t; g = link g bl_t fl_t;
          (tm_f, g) = addNode g 0 (height params) d2;
          (tm_b, g) = addNode g 0 (height params) (- d2);
          (tm_l, g) = addNode g (- w2) (height params) 0;
          (tm_r, g) = addNode g w2 (height params) 0;
          (center, g) = addNode g 0 (height params) 0;
          g = link g fl_t tm_f; g = link g tm_f fr_t;
          g = link g bl_t tm_b; g = link g tm_b br_t;
          g = link g fl_t tm_l; g = link g tm_l bl_t;
          g = link g fr_t tm_r; g = link g tm_r br_t;
          g = link g tm_l center; g = link g center tm_r;
          g = link g tm_f center; g = link g center tm_b
      in g)"

text \<open>
  The two loops of \<open>generateLinearStool\<close>. The first fills \<open>topIndices\<close> and
  \<open>botIndices\<close>; the second links them and adds two rest-ring nodes per step.
\<close>

definition stoolRing ::
  "FurnitureParams \<Rightarrow> nat \<Rightarrow> nat \<Rightarrow> NetworkData \<times> int list \<times> int list \<Rightarrow>
   NetworkData \<times> int list \<times> int list" where
  "stoolRing params steps i s =
     (let g = fst s; topIndices = fst (snd s); botIndices = snd (snd s);
          radiusTop = width params / 2;
          radiusBot = width params / 1.5;
          theta = (real i / real steps) * pi * 2 + (pi / 4);
          (b, g) = addNode g (cos theta * radiusBot) 0 (sin theta * radiusBot);
          (t, g) = addNode g (cos theta * radiusTop) (height params) (sin theta * radiusTop)
      in (g, topIndices @ [t], botIndices @ [b]))"

definition stoolLinks ::
  "FurnitureParams \<Rightarrow> nat \<Rightarrow> int list \<Rightarrow> int list \<Rightarrow> nat \<Rightarrow> NetworkData \<Rightarrow> NetworkData" where
  "stoolLinks params steps topIndices botIndices i g =
     (let radiusTop = width params / 2;
          radiusBot = width params / 1.5;
          next = (i + 1) mod steps;
          g = link g (botIndices ! i) (topIndices ! i);
          g = link g (topIndices ! i) (topIndices ! next);
          g = link g (botIndices ! i) (topIndices ! next);
          restH = height params * 0.3;
          rRest = lerp radiusBot radiusTop 0.3;
          (restA, g) = addNode g (cos ((real i / real steps) * pi * 2 + pi / 4) * rRest) restH
                         (sin ((real i / real steps) * pi * 2 + pi / 4) * rRest);
          (restB, g) = addNode g (cos ((real (i + 1) / real steps) * pi * 2 + pi / 4) * rRest) restH
                         (sin ((real (i + 1) / real steps) * pi * 2 + pi / 4) * rRest)
      in link g restA restB)"

definition generateLinearStool :: "NetworkData \<Rightarrow> FurnitureParams \<Rightarrow> NetworkData" where
  "generateLinearStool g0 params =
     (let steps = 4;
          s = fold (stoolRing params steps) [0..<steps] (g0, [], []);
          topIndices = fst (snd s);
          botIndices = snd (snd s)
      in fold (stoolLinks params steps topIndices botIndices) [0..<steps] (fst s))"

subsection \<open>Recliner\<close>

text \<open>
  The surface points of the recliner: for each of the 31 stations along the spine, one
  random jitter in \<open>z\<close>, then 13 points across, each with a random jitter in \<open>x\<close>.
  The state is the network, \<open>surfacePoints\<close> and the count of random numbers drawn.
\<close>

definition reclinerPoint ::
  "random_source \<Rightarrow> FurnitureParams \<Rightarrow> nat \<Rightarrow> real \<Rightarrow> real \<Rightarrow> real \<Rightarrow> nat \<Rightarrow>
   NetworkData \<times> (int \<times> Vector3) list \<times> nat \<Rightarrow> NetworkData \<times> (int \<times> Vector3) list \<times> nat" where
  "reclinerPoint rnd params densityV spineY spineZ jitterZ j s =
     (let g = fst s; surfacePoints = fst (snd s); k = snd (snd s);
          u = real j / real densityV;
          x = (u - 0.5) * width params;
          jitterX = (rnd k - 0.5) * (width params / real densityV) * 0.8;
          finalX = x + jitterX;
          finalZ = spineZ + jitterZ;
          cradle = cos ((u - 0.5) * pi) * (- 0.1) * width params;
          finalY = spineY + cradle;
          (i, g) = addNode g finalX finalY finalZ
      in (g, surfacePoints @ [(i, nodes g ! nat i)], k + 1))"

definition reclinerRow ::
  "random_source \<Rightarrow> FurnitureParams \<Rightarrow> nat \<Rightarrow> nat \<Rightarrow> nat \<Rightarrow>
   NetworkData \<times> (int \<times> Vector3) list \<times> nat \<Rightarrow> NetworkData \<times> (int \<times> Vector3) list \<times> nat" where
  "reclinerRow rnd params densityU densityV i s =
     (let g = fst s; surfacePoints = fst (snd s); k = snd (snd s);
          p0 = Vector3 0 (height params * 0.9) (- depth params / 2);
          p1 = Vector3 0 (height params * 0.2) (- depth params / 4);
          p2 = Vector3 0 (height params * 0.6) (depth params / 4);
          p3 = Vector3 0 (height params * 0.3) (depth params / 2);
          t = real i / real densityU;
          spineY = vy (cubicBezierPoint p0 p1 p2 p3 t);
          spineZ = lerp (- depth params / 2) (depth params / 2) t;
          jitterZ = (rnd k - 0.5) * (depth params / real densityU) * 0.8
      in fold (reclinerPoint rnd params densityV spineY spineZ jitterZ) [0..<densityV + 1]
           (g, surfacePoints, k + 1))"

definition reclinerConnect ::
  "(int \<times> Vector3) list \<Rightarrow> real \<Rightarrow> nat \<Rightarrow> NetworkData \<Rightarrow> NetworkData" where
  "reclinerConnect surfacePoints connectionDist windowSize g =
     fold (\<lambda>i. fold (\<lambda>j g.
                  let pA = surfacePoints ! i;
                      pB = surfacePoints ! j;
                      dist = distanceTo (snd pA) (snd pB)
                  in if dist < connectionDist then link g (fst pA) (fst pB) else g)
                [i + 1..<min (i + windowSize) (length surfacePoints)])
          [0..<length surfacePoints] g"

definition reclinerLeg ::
  "random_source \<Rightarrow> FurnitureParams \<Rightarrow> int \<times> Vector3 \<Rightarrow> NetworkData \<times> nat \<Rightarrow> NetworkData \<times> nat" where
  "reclinerLeg rnd params p s =
     (let g = fst s; k = snd s in
      if rnd k > 0.97 \<and> vy (snd p) < height params * 0.5 then
        let (legId, g) = addNode g (vx (snd p)) 0 (vz (snd p))
        in (link g (fst p) legId, k + 1)
      else (g, k + 1))"

definition generateVoronoiReclinerOriginal ::
  "random_source \<Rightarrow> NetworkData \<Rightarrow> FurnitureParams \<Rightarrow> NetworkData" where
  "generateVoronoiReclinerOriginal rnd g0 params =
     (let densityU = 30;
          densityV = 12;
          s = fold (reclinerRow rnd params densityU densityV) [0..<densityU + 1] (g0, [], 0);
          surfacePoints = fst (snd s);
          connectionDist = (width params / real densityV) * 1.8;
          windowSize = densityV * 3;
          g = reclinerConnect surfacePoints connectionDist windowSize (fst s)
      in fst (fold (reclinerLeg rnd params) surfacePoints (g, snd (snd s))))"

subsection \<open>The builders written inline in \<open>generateFurniture\<close>\<close>

definition benchFrame :: "FurnitureParams \<Rightarrow> real \<Rightarrow> nat \<Rightarrow> NetworkData \<Rightarrow> NetworkData" where
  "benchFrame params dx i g0 =
     (let w2 = width params / 2;
          d2 = depth params / 2;
          x = - w2 + real i * dx;
          (f_b, g) = addNode g0 x 0 d2;
          (b_b, g) = addNode g x 0 (- d2);
          (f_t, g) = addNode g x (height params) d2;
          (b_t, g) = addNode g x (height params) (- d2);
          g = link g f_b f_t;
          g = link g b_b b_t;
          g = link g f_t b_t
      in if i > 0 then
           let prev_f_t = int (length (nodes g)) - 6;
               prev_b_t = int (length (nodes g)) - 5;
               g = link g prev_f_t f_t; g = link g prev_b_t b_t;
               g = link g prev_f_t b_t; g = link g prev_b_t f_t
           in g
         else g)"

definition linearBench :: "NetworkData \<Rightarrow> FurnitureParams \<Rightarrow> NetworkData" where
  "linearBench g0 params =
     (let legs = 3;
          dx = width params / (real legs - 1)
      in fold (benchFrame params dx) [0..<legs] g0)"

definition shelfLevel :: "FurnitureParams \<Rightarrow> real \<Rightarrow> nat \<Rightarrow> NetworkData \<Rightarrow> NetworkData" where
  "shelfLevel params dy i g0 =
     (let w2 = width params / 2;
          d2 = depth params / 2;
          y = real i * dy;
          (fl, g) = addNode g0 (- w2) y d2;
          (fr, g) = addNode g w2 y d2;
          (bl, g) = addNode g (- w2) y (- d2);
          (br, g) = addNode g w2 y (- d2);
          g = link g fl fr; g = link g fr br;
          g = link g br bl; g = link g bl fl;
          g = link g fl br; g = link g fr bl
      in if i > 0 then
           let prev_fl = int (length (nodes g)) - 8;
               prev_fr = int (length (nodes g)) - 7;
               prev_bl = int (length (nodes g)) - 6;
               prev_br = int (length (nodes g)) - 5;
               g = link g prev_fl fl; g = link g prev_fr fr;
               g = link g prev_bl bl; g = link g prev_br br
           in g
         else g)"

definition linearShelf :: "NetworkData \<Rightarrow> FurnitureParams \<Rightarrow> NetworkData" where
  "linearShelf g0 params =
     (let levels = 4;
          dy = height params / (real levels - 1)
      in fold (shelfLevel params dy) [0..<levels] g0)"

text \<open>
  The vase: per ring, a loop that adds the ring's nodes and a loop that links them to
  each other and to the previous ring. The state carries \<open>prevIndices\<close>.
\<close>

definition vaseNode ::
  "real \<Rightarrow> real \<Rightarrow> nat \<Rightarrow> nat \<Rightarrow> nat \<Rightarrow> NetworkData \<times> int list \<Rightarrow> NetworkData \<times> int list" where
  "vaseNode y rad segments r s st =
     (let theta = (real s / real segments) * pi * 2;
          twist = real r * 0.2;
          nx = cos (theta + twist) * rad;
          nz = sin (theta + twist) * rad;
          (n, g) = addNode (fst st) nx y nz
      in (g, snd st @ [n]))"

definition vaseLinks ::
  "nat \<Rightarrow> nat \<Rightarrow> int list \<Rightarrow> int list \<Rightarrow> nat \<Rightarrow> NetworkData \<Rightarrow> NetworkData" where
  "vaseLinks segments r prevIndices currentIndices s g0 =
     (let nextS = (s + 1) mod segments;
          g = link g0 (currentIndices ! s) (currentIndices ! nextS)
      in if r > 0 then
           let g = link g (prevIndices ! s) (currentIndices ! s);
               g = link g (prevIndices ! s) (currentIndices ! nextS)
           in g
         else g)"

definition vaseRing ::
  "FurnitureParams \<Rightarrow> nat \<Rightarrow> nat \<Rightarrow> nat \<Rightarrow> NetworkData \<times> int list \<Rightarrow> NetworkData \<times> int list" where
  "vaseRing params rings segments r st =
     (let prevIndices = snd st;
          baseRadius = width params * 0.4;
          y = (real r / (real rings - 1)) * height params;
          bulge = sin ((real r / (real rings - 1)) * pi) * 0.3;
          rad = baseRadius + bulge + (real r / real rings) * 0.1;
          added = fold (vaseNode y rad segments r) [0..<segments] (fst st, []);
          currentIndices = snd added;
          g = fold (vaseLinks segments r prevIndices currentIndices) [0..<segments] (fst added)
      in (g, currentIndices))"

definition linearVase :: "NetworkData \<Rightarrow> FurnitureParams \<Rightarrow> NetworkData" where
  "linearVase g0 params =
     (let rings = 8;
          segments = 6
      in fst (fold (vaseRing params rings segments) [0..<rings] (g0, [])))"

text \<open>The lamp: 17 layers of 9 points; the state carries \<open>prevLayerIds\<close>.\<close>

definition lampNode ::
  "FurnitureParams \<Rightarrow> nat \<Rightarrow> real \<Rightarrow> real \<Rightarrow> real \<Rightarrow> nat \<Rightarrow>
   NetworkData \<times> int list \<Rightarrow> NetworkData \<times> int list" where
  "lampNode params pointsPerLayer t y currentRad j st =
     (let angle = (real j / real pointsPerLayer) * pi * 2;
          noiseX = sin (angle * 3 + t * 10) * 0.1 * width params;
          noiseZ = cos (angle * 5 - t * 8) * 0.1 * width params;
          twist = t * pi * 4;
          x = cos (angle + twist) * currentRad + noiseX;
          z = sin (angle + twist) * currentRad + noiseZ;
          (n, g) = addNode (fst st) x y z
      in (g, snd st @ [n]))"

definition lampLinks ::
  "nat \<Rightarrow> int list \<Rightarrow> int list \<Rightarrow> nat \<Rightarrow> NetworkData \<Rightarrow> NetworkData" where
  "lampLinks pointsPerLayer prevLayerIds layerIds j g0 =
     (let curr = layerIds ! j;
          prev = prevLayerIds ! j;
          prevNext = prevLayerIds ! ((j + 1) mod pointsPerLayer);
          g = link g0 curr prev;
          g = link g curr prevNext;
          g = link g curr (layerIds ! ((j + 1) mod pointsPerLayer))
      in g)"

definition lampBaseLinks :: "nat \<Rightarrow> int list \<Rightarrow> nat \<Rightarrow> NetworkData \<Rightarrow> NetworkData" where
  "lampBaseLinks pointsPerLayer layerIds j g =
     link g (layerIds ! j) (layerIds ! ((j + 1) mod pointsPerLayer))"

definition lampLayer ::
  "FurnitureParams \<Rightarrow> nat \<Rightarrow> nat \<Rightarrow> nat \<Rightarrow> NetworkData \<times> int list \<Rightarrow> NetworkData \<times> int list" where
  "lampLayer params layers pointsPerLayer i st =
     (let prevLayerIds = snd st;
          radBase = width params * 0.4;
          radTop = width params * 0.25;
          t = real i / real layers;
          y = t * height params;
          waist = 0.5;
          profile = 1 - sin (t * pi) * waist;
          currentRad = lerp radBase radTop t * profile;
          added = fold (lampNode params pointsPerLayer t y currentRad) [0..<pointsPerLayer]
                    (fst st, []);
          layerIds = snd added;
          g = (if i > 0
               then fold (lampLinks pointsPerLayer prevLayerIds layerIds) [0..<pointsPerLayer]
                      (fst added)
               else fold (lampBaseLinks pointsPerLayer layerIds) [0..<pointsPerLayer] (fst added))
      in (g, layerIds))"

definition linearLamp :: "NetworkData \<Rightarrow> FurnitureParams \<Rightarrow> NetworkData" where
  "linearLamp g0 params =
     (let layers = 16;
          pointsPerLayer = 9
      in fst (fold (lampLayer params layers pointsPerLayer) [0..<layers + 1] (g0, [])))"

text \<open>
  The Moebius strip: a first pair of loops fills \<open>grid\<close>, the rows of node
  identifiers; a second pair links them; a last pass lifts every node below \<open>y = 0\<close>.
\<close>

definition mobiusNode ::
  "FurnitureParams \<Rightarrow> nat \<Rightarrow> real \<Rightarrow> nat \<Rightarrow> NetworkData \<times> int list \<Rightarrow> NetworkData \<times> int list" where
  "mobiusNode params segmentsS t j st =
     (let R = width params * 0.8;
          stripWidth = depth params * 0.4;
          sNormalized = (real j / real segmentsS) - 0.5;
          s = sNormalized * stripWidth;
          mx = (R + s * cos (t / 2)) * cos t;
          my = (R + s * cos (t / 2)) * sin t;
          mz = s * sin (t / 2);
          (n, g) = addNode (fst st) mx (mz + height params / 2) (my * 0.6)
      in (g, snd st @ [n]))"

definition mobiusRow ::
  "FurnitureParams \<Rightarrow> nat \<Rightarrow> nat \<Rightarrow> nat \<Rightarrow> NetworkData \<times> int list list \<Rightarrow>
   NetworkData \<times> int list list" where
  "mobiusRow params segmentsT segmentsS i st =
     (let t = (real i / real segmentsT) * pi * 2;
          added = fold (mobiusNode params segmentsS t) [0..<segmentsS + 1] (fst st, [])
      in (fst added, snd st @ [snd added]))"

definition mobiusLinks ::
  "nat \<Rightarrow> nat \<Rightarrow> int list list \<Rightarrow> nat \<Rightarrow> nat \<Rightarrow> NetworkData \<Rightarrow> NetworkData" where
  "mobiusLinks segmentsT segmentsS grid i j g0 =
     (let nextI = (i + 1) mod segmentsT;
          curr = grid ! i ! j;
          g = (if nextI = 0
               then let nextJ = segmentsS - j in link g0 curr (grid ! 0 ! nextJ)
               else link g0 curr (grid ! nextI ! j))
      in if j < segmentsS then
           let g = link g curr (grid ! i ! (j + 1))
           in if nextI \<noteq> 0 then link g curr (grid ! nextI ! (j + 1)) else g
         else g)"

definition clampToFloor :: "Vector3 \<Rightarrow> Vector3" where
  "clampToFloor n = (if vy n < 0 then Vector3 (vx n) 0 (vz n) else n)"

definition linearMobius :: "NetworkData \<Rightarrow> FurnitureParams \<Rightarrow> NetworkData" where
  "linearMobius g0 params =
     (let segmentsT = 64;
          segmentsS = 4;
          built = fold (mobiusRow params segmentsT segmentsS) [0..<segmentsT] (g0, []);
          grid = snd built;
          g = fold (\<lambda>i. fold (mobiusLinks segmentsT segmentsS grid i) [0..<segmentsS + 1])
                [0..<segmentsT] (fst built)
      in g\<lparr>nodes := map clampToFloor (nodes g)\<rparr>)"

section \<open>The generator\<close>

definition generateFurniture ::
  "random_source \<Rightarrow> FurnitureType \<Rightarrow> FurnitureParams \<Rightarrow> NetworkData" where
  "generateFurniture rnd type params =
     (let g0 = \<lparr>nodes = [], edges = []\<rparr>;
          isVolumePattern =
            (pattern params = Gyroid \<or> pattern params = Voronoi \<or> pattern params = Triangular)
      in if isVolumePattern then
           (if pattern params = Gyroid then generateVolumeGyroid g0 params type
            else if pattern params = Triangular then generateVolumeTriangular g0 params type
            else generateVolumeVoronoi rnd g0 params type)
         else if type = Chair then generateLinearChair g0 params
         else if type = Table then generateLinearTable g0 params
         else if type = Stool then generateLinearStool g0 params
         else if type = Recliner then generateVoronoiReclinerOriginal rnd g0 params
         else if type = Bench then linearBench g0 params
         else if type = Shelf then linearShelf g0 params
         else if type = Vase then linearVase g0 params
         else if type = Lamp then linearLamp g0 params
         else if type = Mobius then linearMobius g0 params
         else g0)"

section \<open>Well-formed networks\<close>

text \<open>
  A network is well formed when both ends of every edge are positions in \<open>nodes\<close>
  and differ from each other.
\<close>

definition edgesValid :: "NetworkData \<Rightarrow> bool" where
  "edgesValid g =
     list_all (\<lambda>(a, b). 0 \<le> a \<and> a < int (length (nodes g)) \<and>
                        0 \<le> b \<and> b < int (length (nodes g)) \<and> a \<noteq> b)
       (edges g)"

text \<open>
  The invariant of the builders that work ring by ring, \<open>m\<close> nodes to a ring: before
  ring \<open>r\<close> the network is well formed, has \<open>m * r\<close> nodes, and the carried identifiers
  are those of ring \<open>r - 1\<close>.
\<close>

definition ringInv :: "nat \<Rightarrow> nat \<Rightarrow> NetworkData \<times> int list \<Rightarrow> bool" where
  "ringInv m r st =
     (edgesValid (fst st) \<and> length (nodes (fst st)) = m * r \<and>
      (if r > 0 then snd st = map (\<lambda>j. int (m * (r - 1) + j)) [0..<m] else True))"

text \<open>
  While the surface is built no edge exists, and the identifiers recorded in
  \<open>surfacePoints\<close> are the positions \<open>0, 1, 2, \<dots>\<close> of all nodes so far.
\<close>

definition surfaceInv :: "NetworkData \<times> (int \<times> Vector3) list \<times> nat \<Rightarrow> bool" where
  "surfaceInv st =
     (edges (fst st) = [] \<and> map fst (fst (snd st)) = map int [0..<length (nodes (fst st))])"

text \<open>
  The invariant of the grid scans: no edge yet, and \<open>nodeMap\<close> sends keys that are not
  negative to node positions, no two keys to the same one.
\<close>

definition nodeMapInv :: "NetworkData \<times> nodeMap \<Rightarrow> bool" where
  "nodeMapInv s =
     (edges (fst s) = [] \<and> distinct (map snd (snd s)) \<and>
      list_all (\<lambda>(k, v). 0 \<le> k \<and> 0 \<le> v \<and> v < int (length (nodes (fst s)))) (snd s))"

text \<open>
  Every entry of the gyroid's \<open>nodeMap\<close> points to a node, and that node lies at the
  grid point its key decodes to.
\<close>

definition gyroidEntries :: "FurnitureParams \<Rightarrow> int \<Rightarrow> int \<Rightarrow> NetworkData \<times> nodeMap \<Rightarrow> bool" where
  "gyroidEntries params nx ny s =
     list_all (\<lambda>(k, i). 0 \<le> i \<and> nat i < length (nodes (fst s)) \<and>
                 (case decodeGrid nx ny k of
                    None \<Rightarrow> False
                  | Some (x, y, z) \<Rightarrow> nodes (fst s) ! nat i = gyroidPoint params x y z))
       (snd s)"

section \<open>Properties of the hash\<close>

lemma hash3i_unat: "\<exists>w :: 32 word. hash3i x y z = real (unat w) / 4294967296"
  by (auto simp: hash3i_def Let_def)

lemma word32_real_bound: "real (unat (w :: 32 word)) < 4294967296"
proof -
  have "unat w < 2 ^ 32"
    using unsigned_less [of w] by simp
  then have "real (unat w) < real (2 ^ 32)"
    by (rule less_imp_of_nat_less)
  then show ?thesis
    by simp
qed

text \<open>
  Claim C5. For all integers \<open>x\<close>, \<open>y\<close>, \<open>z\<close> the lattice hash lies in the half-open
  interval from 0 to 1: the mixed value is an unsigned 32-bit number divided by
  \<open>2 ^ 32\<close>. The hash is a function of its three arguments alone: it reads no state.
\<close>

theorem hash3i_range: "0 \<le> hash3i x y z \<and> hash3i x y z < 1"
proof -
  obtain w :: "32 word" where w: "hash3i x y z = real (unat w) / 4294967296"
    using hash3i_unat by blast
  have nonneg: "0 \<le> real (unat w)"
    by (rule of_nat_0_le_iff)
  show ?thesis
    unfolding w using nonneg word32_real_bound [of w] by simp
qed

section \<open>Properties of the frame transport\<close>

lemma crossVectors_self: "crossVectors a a = Vector3 0 0 0"
  by (simp add: crossVectors_def)

text \<open>
  Claim C9. With equal previous and current tangents, \<open>transportNormal\<close> returns the
  previous normal unchanged: both tangents normalise to the same vector, their cross
  product is the zero vector, its length 0 is below the guard, and the function returns
  before any rotation.
\<close>

theorem transportNormal_same_tangent: "transportNormal t t prevN = prevN"
  by (simp add: transportNormal_def Let_def crossVectors_self vlength_def)

section \<open>Properties of the serpentine deformation\<close>

subsection \<open>Finite results\<close>

lemma maxDouble_ge: "2 ^ 1023 \<le> maxDouble"
proof -
  have "(2::real) ^ 1023 = 2 ^ 52 * 2 ^ 971" by (simp flip: power_add)
  also have "\<dots> \<le> (2 ^ 53 - 1) * 2 ^ 971" by (intro mult_right_mono) simp_all
  finally show ?thesis by (simp add: maxDouble_def)
qed

lemma maxDouble_lt: "maxDouble < 2 ^ 1024"
proof -
  have "(2 ^ 53 - 1) * (2::real) ^ 971 < 2 ^ 53 * 2 ^ 971" by (intro mult_strict_right_mono) simp_all
  also have "\<dots> = 2 ^ 1024" by (simp flip: power_add)
  finally show ?thesis by (simp add: maxDouble_def)
qed

lemma maxDouble_ge_8: "8 \<le> maxDouble"
proof -
  have "(8::real) = 2 ^ 3" by simp
  also have "\<dots> \<le> 2 ^ 1023" by (intro power_increasing) simp_all
  finally show ?thesis using maxDouble_ge by linarith
qed

lemma overflow_Finite_iff: "overflow x = Finite y \<longleftrightarrow> isDouble x \<and> y = x"
  by (auto simp: overflow_def isDouble_def)

lemma overflow_isDouble: "isDouble x \<Longrightarrow> overflow x = Finite x"
  by (simp add: overflow_Finite_iff)

lemma overflow_not_NaN [simp]: "overflow x \<noteq> NaN"
  by (simp add: overflow_def)

lemma isDouble_small: "\<bar>x\<bar> \<le> 8 \<Longrightarrow> isDouble x"
  using maxDouble_ge_8 by (simp add: isDouble_def)

lemma d_add_Finite: "d_add a b = Finite z \<Longrightarrow> \<exists>x y. a = Finite x \<and> b = Finite y \<and> z = x + y \<and> isDouble z"
  by (cases a; cases b) (auto simp: overflow_Finite_iff)

lemma d_sub_Finite: "d_sub (Finite x) (Finite y) = Finite z \<Longrightarrow> z = x - y \<and> isDouble z"
  by (auto simp: d_sub_def overflow_Finite_iff)

lemma d_mul_Finite: "d_mul a b = Finite z \<Longrightarrow> \<exists>x y. a = Finite x \<and> b = Finite y \<and> z = x * y \<and> isDouble z"
  by (cases a; cases b) (auto simp: overflow_Finite_iff split: if_splits)

lemma d_sqrt_Finite: "d_sqrt a = Finite z \<Longrightarrow> \<exists>x. a = Finite x \<and> 0 \<le> x \<and> z = sqrt x"
  by (cases a) (auto split: if_splits)

lemma overflow_small: "\<bar>x\<bar> \<le> 8 \<Longrightarrow> overflow x = Finite x"
  by (intro overflow_isDouble isDouble_small)

subsection \<open>The arc lengths\<close>

text \<open>
  A finite running total is the sum of the segment lengths, and every segment length
  and every earlier total is then finite as well.
\<close>

lemma d_distanceTo_Finite:
  assumes "d_distanceTo p q = Finite d"
  shows "d = distanceTo p q"
    and "(vx p - vx q) * (vx p - vx q) \<le> maxDouble"
    and "(vy p - vy q) * (vy p - vy q) \<le> maxDouble"
    and "(vz p - vz q) * (vz p - vz q) \<le> maxDouble"
proof -
  define dx where "dx = d_sub (Finite (vx p)) (Finite (vx q))"
  define dy where "dy = d_sub (Finite (vy p)) (Finite (vy q))"
  define dz where "dz = d_sub (Finite (vz p)) (Finite (vz q))"
  have sq: "d_sqrt (d_add (d_add (d_mul dx dx) (d_mul dy dy)) (d_mul dz dz)) = Finite d"
    using assms by (simp add: d_distanceTo_def Let_def dx_def dy_def dz_def)
  from d_sqrt_Finite [OF sq] obtain s where
    s: "d_add (d_add (d_mul dx dx) (d_mul dy dy)) (d_mul dz dz) = Finite s" "d = sqrt s"
    by blast
  from d_add_Finite [OF s(1)] obtain s1 mz where
    s1: "d_add (d_mul dx dx) (d_mul dy dy) = Finite s1" "d_mul dz dz = Finite mz" "s = s1 + mz"
    by blast
  from d_add_Finite [OF s1(1)] obtain mx my where
    s2: "d_mul dx dx = Finite mx" "d_mul dy dy = Finite my" "s1 = mx + my"
    by blast
  from d_mul_Finite [OF s2(1)] obtain x where x: "dx = Finite x" "mx = x * x" "isDouble mx"
    by auto
  from d_mul_Finite [OF s2(2)] obtain y where y: "dy = Finite y" "my = y * y" "isDouble my"
    by auto
  from d_mul_Finite [OF s1(2)] obtain z where z: "dz = Finite z" "mz = z * z" "isDouble mz"
    by auto
  have x': "x = vx p - vx q" using d_sub_Finite x(1) unfolding dx_def by blast
  have y': "y = vy p - vy q" using d_sub_Finite y(1) unfolding dy_def by blast
  have z': "z = vz p - vz q" using d_sub_Finite z(1) unfolding dz_def by blast
  show "d = distanceTo p q"
    by (simp add: distanceTo_def Let_def s s1 s2 x y z x' y' z')
  show "(vx p - vx q) * (vx p - vx q) \<le> maxDouble"
    using x(2,3) x' by (simp add: isDouble_def)
  show "(vy p - vy q) * (vy p - vy q) \<le> maxDouble"
    using y(2,3) y' by (simp add: isDouble_def)
  show "(vz p - vz q) * (vz p - vz q) \<le> maxDouble"
    using z(2,3) z' by (simp add: isDouble_def)
qed

lemma distanceTo_nonneg: "0 \<le> distanceTo p q"
  by (simp add: distanceTo_def Let_def)

lemma arcStep_parts:
  "snd (arcStep points i s) = d_add (snd s) (d_distanceTo (points ! (i + 1)) (points ! i))"
  "fst (arcStep points i s) = fst s @ [snd (arcStep points i s)]"
  by (simp_all add: arcStep_def Let_def)

lemma arcLengths_cum:
  "fst (fold (arcStep points) [0..<m] ([Finite 0], Finite 0)) =
     map (\<lambda>k. snd (fold (arcStep points) [0..<k] ([Finite 0], Finite 0))) [0..<Suc m]"
proof (induction m)
  case 0
  show ?case by simp
next
  case (Suc m)
  have "fst (fold (arcStep points) [0..<Suc m] ([Finite 0], Finite 0)) =
          fst (fold (arcStep points) [0..<m] ([Finite 0], Finite 0)) @
          [snd (fold (arcStep points) [0..<Suc m] ([Finite 0], Finite 0))]"
    by (simp add: arcStep_parts(2))
  then show ?case using Suc.IH by simp
qed

lemma arcLengths_prefix:
  assumes "snd (fold (arcStep points) [0..<m] (c, Finite 0)) = Finite T"
  shows "T = (\<Sum>i<m. distanceTo (points ! (i + 1)) (points ! i)) \<and>
         (\<forall>i<m. d_distanceTo (points ! (i + 1)) (points ! i) =
                   Finite (distanceTo (points ! (i + 1)) (points ! i))) \<and>
         (\<forall>k\<le>m. snd (fold (arcStep points) [0..<k] (c, Finite 0)) =
                   Finite (\<Sum>i<k. distanceTo (points ! (i + 1)) (points ! i)))"
  using assms
proof (induction m arbitrary: T)
  case 0
  then show ?case by simp
next
  case (Suc m)
  let ?prev = "fold (arcStep points) [0..<m] (c, Finite 0)"
  have "d_add (snd ?prev) (d_distanceTo (points ! (m + 1)) (points ! m)) = Finite T"
    using Suc.prems by (simp add: arcStep_parts(1))
  from d_add_Finite [OF this] obtain t d where
    td: "snd ?prev = Finite t" "d_distanceTo (points ! (m + 1)) (points ! m) = Finite d" "T = t + d"
    by blast
  have d: "d = distanceTo (points ! (m + 1)) (points ! m)"
    using d_distanceTo_Finite(1) [OF td(2)] .
  note IH = Suc.IH [OF td(1)]
  have T: "T = (\<Sum>i<Suc m. distanceTo (points ! (i + 1)) (points ! i))"
    using IH td(3) d by simp
  have dist: "\<forall>i<Suc m. d_distanceTo (points ! (i + 1)) (points ! i) =
                   Finite (distanceTo (points ! (i + 1)) (points ! i))"
    using IH td(2) d by (auto simp: less_Suc_eq)
  have pre: "\<forall>k\<le>Suc m. snd (fold (arcStep points) [0..<k] (c, Finite 0)) =
                   Finite (\<Sum>i<k. distanceTo (points ! (i + 1)) (points ! i))"
  proof (intro allI impI)
    fix k assume "k \<le> Suc m"
    then consider "k \<le> m" | "k = Suc m" by linarith
    then show "snd (fold (arcStep points) [0..<k] (c, Finite 0)) =
                   Finite (\<Sum>i<k. distanceTo (points ! (i + 1)) (points ! i))"
    proof cases
      case 1 then show ?thesis using IH by blast
    next
      case 2 then show ?thesis using Suc.prems T by simp
    qed
  qed
  show ?case using T dist pre by blast
qed

lemma arcLengths_total:
  "snd (arcLengths points) = Finite T \<Longrightarrow>
     T = (\<Sum>i<length points - 1. distanceTo (points ! (i + 1)) (points ! i))"
  using arcLengths_prefix [of points "length points - 1" "[Finite 0]" T]
  by (simp add: arcLengths_def)

lemma arcLengths_three_origins:
  "arcLengths [Vector3 0 0 0, Vector3 0 0 0, Vector3 0 0 0] = ([Finite 0, Finite 0, Finite 0], Finite 0)"
  by (simp add: arcLengths_def arcStep_def d_distanceTo_def d_sub_def Let_def upt_rec overflow_small)

lemma arcLengths_three_steps:
  "arcLengths [Vector3 0 0 0, Vector3 1 0 0, Vector3 2 0 0] = ([Finite 0, Finite 1, Finite 2], Finite 2)"
  by (simp add: arcLengths_def arcStep_def d_distanceTo_def d_sub_def Let_def upt_rec overflow_small)

text \<open>
  Claim C7. A polyline of fewer than three points, and a polyline whose total length
  (the \<open>total\<close> of the first loop) is below \<open>1e-9\<close>, is returned as it is, whatever
  the frequency, the amplitude and the taper fraction.
\<close>

theorem serpentinize_degenerate:
  "length points < 3 \<or> d_less (snd (arcLengths points)) (Finite (1 / 1000000000)) \<Longrightarrow>
   serpentinize points frequency amplitude taperFraction = map ofVector3 points"
  by (auto simp: serpentinize_def Let_def)

theorem serpentinize_degenerate_witness:
  "length [Vector3 0 0 0, Vector3 1 2 3] < 3 \<and>
   serpentinize [Vector3 0 0 0, Vector3 1 2 3] 3 (1 / 2) (15 / 100)
     = map ofVector3 [Vector3 0 0 0, Vector3 1 2 3] \<and>
   d_less (snd (arcLengths [Vector3 0 0 0, Vector3 0 0 0, Vector3 0 0 0])) (Finite (1 / 1000000000)) \<and>
   serpentinize [Vector3 0 0 0, Vector3 0 0 0, Vector3 0 0 0] 3 (1 / 2) (15 / 100)
     = map ofVector3 [Vector3 0 0 0, Vector3 0 0 0, Vector3 0 0 0]"
  using serpentinize_degenerate [of "[Vector3 0 0 0, Vector3 1 2 3]" 3 "1 / 2" "15 / 100"]
    serpentinize_degenerate [of "[Vector3 0 0 0, Vector3 0 0 0, Vector3 0 0 0]" 3 "1 / 2" "15 / 100"]
  by (simp add: arcLengths_three_origins)

subsection \<open>Amplitude zero without overflow\<close>

text \<open>
  With a position \<open>u\<close> between 0 and 1 the envelope and \<open>theta\<close> are finite, the
  displacement \<open>sin theta * 0 * envelope\<close> is 0 and the point pushed is the input point.
\<close>

lemma finiteVector_ofVector3 [simp]: "finiteVector (ofVector3 v) = Some v"
  by (cases v) (simp add: ofVector3_def)

lemma d_sub_isDouble: "isDouble (x - y) \<Longrightarrow> d_sub (Finite x) (Finite y) = Finite (x - y)"
  by (simp add: d_sub_def overflow_isDouble)

lemma d_vsub_finite:
  assumes "isDouble (vx a - vx b)" "isDouble (vy a - vy b)" "isDouble (vz a - vz b)"
  shows "d_vsub a b = ofVector3 (vsub a b)"
  using assms by (simp add: d_vsub_def ofVector3_def vsub_def d_sub_isDouble)

lemma d_transportNormal_finite:
  "d_transportNormal (ofVector3 a) (ofVector3 b) (Some m) = Some (transportNormal a b m)"
  by (simp add: d_transportNormal_def)

lemma d_initialNormalFromTangent_finite:
  "d_initialNormalFromTangent (ofVector3 a) = Some (initialNormalFromTangent a)"
  by (simp add: d_initialNormalFromTangent_def)

lemma smoothstep_Finite:
  assumes "0 \<le> e" "e \<le> 1"
  shows "d_mul (d_mul (Finite e) (Finite e)) (d_sub (Finite 3) (d_mul (Finite 2) (Finite e))) =
           Finite (e * e * (3 - 2 * e))"
proof -
  have ee: "0 \<le> e * e" "e * e \<le> 1" using assms by (simp_all add: mult_le_one)
  have 1: "overflow (e * e) = Finite (e * e)"
    using ee by (intro overflow_isDouble isDouble_small) simp
  have 2: "overflow (2 * e) = Finite (2 * e)"
    using assms by (intro overflow_isDouble isDouble_small) simp
  have 3: "d_sub (Finite 3) (Finite (2 * e)) = Finite (3 - 2 * e)"
    using assms by (intro d_sub_isDouble isDouble_small) simp
  have "0 \<le> e * e * (3 - 2 * e)" using ee assms by simp
  moreover have "e * e * (3 - 2 * e) \<le> 1 * 3"
    using ee assms by (intro mult_mono) simp_all
  ultimately have "isDouble (e * e * (3 - 2 * e))" by (intro isDouble_small) simp
  then show ?thesis by (simp add: 1 2 3 overflow_isDouble)
qed

lemma taperEnvelope_Finite:
  assumes "0 \<le> u" "u \<le> 1"
  shows "\<exists>e. taperEnvelope taperFraction (Finite u) = Finite e"
proof (cases "taperFraction > 0")
  case False
  then show ?thesis by (simp add: taperEnvelope_def)
next
  case True
  define e0 where "e0 =
     (if d_less (Finite u) (Finite taperFraction) then d_div (Finite u) (Finite taperFraction)
      else if d_less (d_sub (Finite 1) (Finite taperFraction)) (Finite u)
        then d_div (d_sub (Finite 1) (Finite u)) (Finite taperFraction)
      else Finite 1)"
  have "\<exists>e. e0 = Finite e \<and> 0 \<le> e \<and> e \<le> 1"
  proof (cases "u < taperFraction")
    case lt: True
    have "0 \<le> u / taperFraction" "u / taperFraction \<le> 1" using lt assms True by simp_all
    then have "overflow (u / taperFraction) = Finite (u / taperFraction)"
      by (intro overflow_isDouble isDouble_small) simp
    then show ?thesis
      using lt True \<open>0 \<le> u / taperFraction\<close> \<open>u / taperFraction \<le> 1\<close> by (simp add: e0_def)
  next
    case ge: False
    then have tf: "taperFraction \<le> 1" using assms by simp
    have s1: "d_sub (Finite 1) (Finite taperFraction) = Finite (1 - taperFraction)"
      using True tf by (intro d_sub_isDouble isDouble_small) simp
    have s2: "d_sub (Finite 1) (Finite u) = Finite (1 - u)"
      using assms by (intro d_sub_isDouble isDouble_small) simp
    show ?thesis
    proof (cases "1 - taperFraction < u")
      case gt: True
      have b: "0 \<le> (1 - u) / taperFraction" "(1 - u) / taperFraction \<le> 1"
        using gt assms True by simp_all
      then have "overflow ((1 - u) / taperFraction) = Finite ((1 - u) / taperFraction)"
        by (intro overflow_isDouble isDouble_small) simp
      then show ?thesis using ge gt True b by (simp add: e0_def s1 s2)
    next
      case False
      then show ?thesis using ge by (simp add: e0_def s1)
    qed
  qed
  then obtain e where e: "e0 = Finite e" "0 \<le> e" "e \<le> 1" by blast
  have "taperEnvelope taperFraction (Finite u) =
          d_mul (d_mul e0 e0) (d_sub (Finite 3) (d_mul (Finite 2) e0))"
    using True by (simp add: taperEnvelope_def Let_def e0_def)
  then show ?thesis using smoothstep_Finite [OF e(2,3)] e(1) by simp
qed

lemma theta_Finite:
  assumes "isDouble (pi * 2 * frequency)" "0 \<le> u" "u \<le> 1"
  shows "\<exists>th. d_mul (d_mul (d_mul (Finite pi) (Finite 2)) (Finite frequency)) (Finite u) = Finite th"
proof -
  have "\<bar>pi * 2\<bar> \<le> 8" using pi_less_4 pi_gt_zero by simp
  then have 1: "overflow (pi * 2) = Finite (pi * 2)"
    by (intro overflow_isDouble isDouble_small)
  have 2: "overflow (pi * 2 * frequency) = Finite (pi * 2 * frequency)"
    using assms(1) by (simp add: overflow_isDouble)
  have "\<bar>pi * 2 * frequency * u\<bar> = \<bar>pi * 2 * frequency\<bar> * u"
    using assms(2) by (simp add: abs_mult)
  also have "\<dots> \<le> \<bar>pi * 2 * frequency\<bar> * 1"
    using assms(3) by (intro mult_left_mono) simp_all
  finally have "isDouble (pi * 2 * frequency * u)"
    using assms(1) by (simp add: isDouble_def)
  then show ?thesis by (simp add: 1 2 overflow_isDouble)
qed

lemma disp_zero:
  assumes "isDouble (pi * 2 * frequency)" "0 \<le> u" "u \<le> 1"
  shows "d_mul (d_mul (d_sin (d_mul (d_mul (d_mul (Finite pi) (Finite 2)) (Finite frequency)) (Finite u)))
                  (Finite 0)) (taperEnvelope taperFraction (Finite u)) = Finite 0"
proof -
  obtain th where th: "d_mul (d_mul (d_mul (Finite pi) (Finite 2)) (Finite frequency)) (Finite u) = Finite th"
    using theta_Finite [OF assms] by blast
  obtain e where e: "taperEnvelope taperFraction (Finite u) = Finite e"
    using taperEnvelope_Finite [OF assms(2,3)] by blast
  have z: "overflow 0 = Finite 0" by (intro overflow_isDouble isDouble_small) simp
  show ?thesis unfolding th e by (simp add: z)
qed

lemma d_addScaledVector_zero:
  assumes "isDouble (vx p)" "isDouble (vy p)" "isDouble (vz p)"
  shows "d_addScaledVector p (Some m) (Finite 0) = ofVector3 p"
proof -
  have z: "overflow 0 = Finite 0" by (intro overflow_isDouble isDouble_small) simp
  show ?thesis
    using assms by (simp add: d_addScaledVector_def Let_def ofVector3_def z overflow_isDouble)
qed

lemma serpStep_zero_amplitude:
  assumes fr: "isDouble (pi * 2 * frequency)"
    and u: "d_div (cum ! i) totalLen = Finite u" "0 \<le> u" "u \<le> 1"
    and tg: "serpTangent points i = ofVector3 t"
    and dbl: "isDouble (vx (points ! i))" "isDouble (vy (points ! i))" "isDouble (vz (points ! i))"
  shows "serpStep points cum totalLen frequency 0 taperFraction i (out, ofVector3 a, Some m) =
           (out @ [ofVector3 (points ! i)], ofVector3 t, Some (transportNormal a t m))"
  unfolding serpStep_def Let_def fst_conv snd_conv tg u(1) d_transportNormal_finite
    disp_zero [OF fr u(2,3)] d_addScaledVector_zero [OF dbl]
  by (rule refl)

lemma serpStep_fold_zero_amplitude:
  assumes fr: "isDouble (pi * 2 * frequency)"
    and u: "\<forall>i\<in>set ixs. \<exists>u. d_div (cum ! i) totalLen = Finite u \<and> 0 \<le> u \<and> u \<le> 1"
    and tg: "\<forall>i\<in>set ixs. \<exists>t. serpTangent points i = ofVector3 t"
    and dbl: "\<forall>i\<in>set ixs. isDouble (vx (points ! i)) \<and> isDouble (vy (points ! i)) \<and>
                isDouble (vz (points ! i))"
  shows "fst (fold (serpStep points cum totalLen frequency 0 taperFraction) ixs
                (out, ofVector3 a, Some m)) =
           out @ map (\<lambda>i. ofVector3 (points ! i)) ixs"
  using u tg dbl
proof (induction ixs arbitrary: out a m)
  case Nil
  show ?case by simp
next
  case (Cons i ixs)
  obtain u where u: "d_div (cum ! i) totalLen = Finite u" "0 \<le> u" "u \<le> 1"
    using Cons.prems(1) by auto
  obtain t where t: "serpTangent points i = ofVector3 t"
    using Cons.prems(2) by auto
  have d: "isDouble (vx (points ! i))" "isDouble (vy (points ! i))" "isDouble (vz (points ! i))"
    using Cons.prems(3) by auto
  have "fst (fold (serpStep points cum totalLen frequency 0 taperFraction) (i # ixs)
                (out, ofVector3 a, Some m)) =
        fst (fold (serpStep points cum totalLen frequency 0 taperFraction) ixs
                (out @ [ofVector3 (points ! i)], ofVector3 t, Some (transportNormal a t m)))"
    by (simp add: serpStep_zero_amplitude [OF fr u t d])
  also have "\<dots> = (out @ [ofVector3 (points ! i)]) @ map (\<lambda>i. ofVector3 (points ! i)) ixs"
    using Cons.prems by (intro Cons.IH) simp_all
  finally show ?case by simp
qed

text \<open>Two differences whose squares fit in a double add up to a double.\<close>

lemma isDouble_sum:
  assumes "a * a \<le> maxDouble" "b * b \<le> maxDouble"
  shows "isDouble (a + b)"
proof -
  have "(a + b)\<^sup>2 + (a - b)\<^sup>2 = 2 * (a * a) + 2 * (b * b)"
    by (simp add: power2_eq_square algebra_simps)
  moreover have "0 \<le> (a - b)\<^sup>2" by simp
  ultimately have "(a + b)\<^sup>2 \<le> 2 * (a * a) + 2 * (b * b)" by linarith
  also have "\<dots> \<le> 4 * maxDouble" using assms by simp
  also have "\<dots> \<le> maxDouble * maxDouble"
    using maxDouble_ge_8 by (intro mult_right_mono) simp_all
  finally have "(a + b)\<^sup>2 \<le> maxDouble\<^sup>2" by (simp add: power2_eq_square)
  then have "\<bar>a + b\<bar> \<le> \<bar>maxDouble\<bar>" by (simp only: abs_le_square_iff)
  then show ?thesis using maxDouble_ge_8 by (simp add: isDouble_def)
qed

lemma isDouble_square:
  assumes "a * a \<le> maxDouble"
  shows "isDouble a"
  using isDouble_sum [of a 0] assms maxDouble_ge_8 by simp

lemma serpTangent_finite:
  assumes n: "3 \<le> length points"
    and sq: "\<forall>j<length points - 1.
               (vx (points ! (j + 1)) - vx (points ! j)) * (vx (points ! (j + 1)) - vx (points ! j)) \<le> maxDouble \<and>
               (vy (points ! (j + 1)) - vy (points ! j)) * (vy (points ! (j + 1)) - vy (points ! j)) \<le> maxDouble \<and>
               (vz (points ! (j + 1)) - vz (points ! j)) * (vz (points ! (j + 1)) - vz (points ! j)) \<le> maxDouble"
    and i: "i < length points"
  shows "\<exists>t. serpTangent points i = ofVector3 t"
proof -
  consider "i = 0" | "i \<noteq> 0" "i = length points - 1" | "i \<noteq> 0" "i \<noteq> length points - 1"
    by blast
  then show ?thesis
  proof cases
    case 1
    have "0 < length points - 1" using n by simp
    from sq [rule_format, OF this]
    have "d_vsub (points ! 1) (points ! 0) = ofVector3 (vsub (points ! 1) (points ! 0))"
      by (intro d_vsub_finite isDouble_square) simp_all
    then show ?thesis using 1 by (auto simp: serpTangent_def)
  next
    case 2
    have j: "length points - 2 < length points - 1" using n by simp
    have e: "length points - 2 + 1 = length points - 1" using n by simp
    from sq [rule_format, OF j]
    have "d_vsub (points ! (length points - 1)) (points ! (length points - 2)) =
            ofVector3 (vsub (points ! (length points - 1)) (points ! (length points - 2)))"
      unfolding e by (intro d_vsub_finite isDouble_square) simp_all
    then show ?thesis using 2 by (auto simp: serpTangent_def)
  next
    case 3
    have j1: "i < length points - 1" using 3 i by simp
    have j2: "i - 1 < length points - 1" using 3 i by simp
    have e: "i - 1 + 1 = i" using 3 by simp
    note a = sq [rule_format, OF j1]
    note b = sq [rule_format, OF j2, unfolded e]
    have x: "isDouble (vx (points ! (i + 1)) - vx (points ! (i - 1)))"
      using isDouble_sum [of "vx (points ! (i + 1)) - vx (points ! i)" "vx (points ! i) - vx (points ! (i - 1))"]
        a b by simp
    have y: "isDouble (vy (points ! (i + 1)) - vy (points ! (i - 1)))"
      using isDouble_sum [of "vy (points ! (i + 1)) - vy (points ! i)" "vy (points ! i) - vy (points ! (i - 1))"]
        a b by simp
    have z: "isDouble (vz (points ! (i + 1)) - vz (points ! (i - 1)))"
      using isDouble_sum [of "vz (points ! (i + 1)) - vz (points ! i)" "vz (points ! i) - vz (points ! (i - 1))"]
        a b by simp
    have "d_vsub (points ! (i + 1)) (points ! (i - 1)) =
            ofVector3 (vsub (points ! (i + 1)) (points ! (i - 1)))"
      using x y z by (rule d_vsub_finite)
    then show ?thesis using 3 by (auto simp: serpTangent_def)
  qed
qed

text \<open>
  With a finite total and a finite product \<open>(Math.PI * 2) * frequency\<close>, every
  \<open>u\<close> lies between 0 and 1, every tangent is finite, and the second loop appends the
  input points.
\<close>

lemma serpentinize_zero_amplitude_main:
  assumes dbl: "\<forall>p\<in>set points. isDouble (vx p) \<and> isDouble (vy p) \<and> isDouble (vz p)"
    and tot: "d_isFinite (snd (arcLengths points))"
    and fr: "isDouble (pi * 2 * frequency)"
  shows "serpentinize points frequency 0 taperFraction = map ofVector3 points"
proof (cases "length points < 3 \<or> d_less (snd (arcLengths points)) (Finite (1 / 1000000000))")
  case True
  then show ?thesis by (auto simp: serpentinize_def Let_def)
next
  case False
  then have n: "3 \<le> length points" by simp
  obtain T where T: "snd (arcLengths points) = Finite T"
    using tot by (cases "snd (arcLengths points)") simp_all
  have Tpos: "0 < T" using False T by simp
  let ?d = "\<lambda>i. distanceTo (points ! (i + 1)) (points ! i)"
  let ?pt = "\<lambda>k. snd (fold (arcStep points) [0..<k] ([Finite 0], Finite 0))"
  have fT: "?pt (length points - 1) = Finite T"
    using T by (simp add: arcLengths_def)
  note pre = arcLengths_prefix [OF fT]
  have Tsum: "T = (\<Sum>i<length points - 1. ?d i)" using pre by blast
  have dist: "\<And>i. i < length points - 1 \<Longrightarrow>
                d_distanceTo (points ! (i + 1)) (points ! i) = Finite (?d i)"
    using pre by blast
  have part: "\<And>k. k \<le> length points - 1 \<Longrightarrow> ?pt k = Finite (\<Sum>i<k. ?d i)"
    using pre by blast
  have "Suc (length points - 1) = length points" using n by simp
  then have cum: "fst (arcLengths points) = map ?pt [0..<length points]"
    using arcLengths_cum [of points "length points - 1"] by (simp only: arcLengths_def)
  have u: "\<exists>u. d_div (fst (arcLengths points) ! i) (snd (arcLengths points)) = Finite u \<and>
                0 \<le> u \<and> u \<le> 1" if i: "i < length points" for i
  proof -
    have k: "i \<le> length points - 1" using i by simp
    have c: "fst (arcLengths points) ! i = Finite (\<Sum>j<i. ?d j)"
      using i part [OF k] by (simp add: cum)
    have lo: "0 \<le> (\<Sum>j<i. ?d j)" by (intro sum_nonneg distanceTo_nonneg)
    have hi: "(\<Sum>j<i. ?d j) \<le> T"
      unfolding Tsum using k by (intro sum_mono2) (auto simp: distanceTo_nonneg)
    have b: "0 \<le> (\<Sum>j<i. ?d j) / T" "(\<Sum>j<i. ?d j) / T \<le> 1"
      using lo hi Tpos by simp_all
    then have "overflow ((\<Sum>j<i. ?d j) / T) = Finite ((\<Sum>j<i. ?d j) / T)"
      by (intro overflow_isDouble isDouble_small) simp
    then show ?thesis using b Tpos by (simp add: c T)
  qed
  have sq: "\<forall>j<length points - 1.
               (vx (points ! (j + 1)) - vx (points ! j)) * (vx (points ! (j + 1)) - vx (points ! j)) \<le> maxDouble \<and>
               (vy (points ! (j + 1)) - vy (points ! j)) * (vy (points ! (j + 1)) - vy (points ! j)) \<le> maxDouble \<and>
               (vz (points ! (j + 1)) - vz (points ! j)) * (vz (points ! (j + 1)) - vz (points ! j)) \<le> maxDouble"
    using d_distanceTo_Finite(2,3,4) [OF dist] by blast
  have tg: "\<exists>t. serpTangent points i = ofVector3 t" if "i < length points" for i
    using serpTangent_finite [OF n sq that] .
  have "0 < length points" using n by linarith
  from tg [OF this] obtain t0 where t0: "d_vsub (points ! 1) (points ! 0) = ofVector3 t0"
    by (auto simp: serpTangent_def)
  have "serpentinize points frequency 0 taperFraction =
          fst (fold (serpStep points (fst (arcLengths points)) (snd (arcLengths points))
                       frequency 0 taperFraction)
                 [0..<length points]
                 ([], ofVector3 t0, Some (initialNormalFromTangent t0)))"
    using False
    by (simp add: serpentinize_def Let_def t0 [unfolded One_nat_def] d_initialNormalFromTangent_finite)
  also have "\<dots> = [] @ map (\<lambda>i. ofVector3 (points ! i)) [0..<length points]"
    using u tg dbl by (intro serpStep_fold_zero_amplitude [OF fr]) auto
  also have "\<dots> = map ofVector3 points"
    by (simp add: map_nth flip: map_map [unfolded comp_def])
  finally show ?thesis .
qed

subsection \<open>Overflow\<close>

text \<open>
  When \<open>(Math.PI * 2) * frequency\<close> is not finite, \<open>theta\<close> is an infinity or NaN and
  its sine is NaN: every displacement is NaN, whatever the amplitude, and every point
  pushed is a vector of NaN. When the total is not finite, the last \<open>u\<close> is
  \<open>total / total\<close>, which is NaN, and the last point pushed is a vector of NaN.
\<close>

lemma d_mul_NaN_right [simp]: "d_mul a NaN = NaN"
  by (cases a) simp_all

lemma d_add_NaN_right [simp]: "d_add a NaN = NaN"
  by (cases a) simp_all

lemma d_sin_overflow: "\<not> d_isFinite w \<Longrightarrow> d_sin (d_mul w u) = NaN"
  by (cases w; cases u) (simp_all add: sgn_if)

lemma d_div_self_NaN: "\<not> d_isFinite a \<Longrightarrow> d_div a a = NaN"
  by (cases a) simp_all

lemma d_addScaledVector_NaN: "d_addScaledVector p n NaN = nanVector"
  by (simp add: d_addScaledVector_def Let_def nanVector_def)

lemma serpStep_out:
  "fst (serpStep points cum totalLen frequency amplitude taperFraction i s) =
     fst s @ [d_addScaledVector (points ! i)
                (d_transportNormal (fst (snd s)) (serpTangent points i) (snd (snd s)))
                (d_mul (d_mul (d_sin (d_mul (d_mul (d_mul (Finite pi) (Finite 2)) (Finite frequency))
                                        (d_div (cum ! i) totalLen)))
                         (Finite amplitude))
                   (taperEnvelope taperFraction (d_div (cum ! i) totalLen)))]"
  by (simp add: serpStep_def Let_def)

lemma serpStep_fold_overflow:
  assumes "\<not> d_isFinite (d_mul (d_mul (Finite pi) (Finite 2)) (Finite frequency))"
  shows "fst (fold (serpStep points cum totalLen frequency amplitude taperFraction) ixs s) =
           fst s @ replicate (length ixs) nanVector"
proof (induction ixs arbitrary: s)
  case Nil
  show ?case by simp
next
  case (Cons i ixs)
  have "fst (serpStep points cum totalLen frequency amplitude taperFraction i s) =
          fst s @ [nanVector]"
    unfolding serpStep_out d_sin_overflow [OF assms] by (simp add: d_addScaledVector_NaN)
  then show ?case using Cons.IH by (simp add: replicate_append_same)
qed

lemma serpentinize_frequency_overflow:
  assumes "3 \<le> length points"
    and "\<not> d_less (snd (arcLengths points)) (Finite (1 / 1000000000))"
    and "\<not> d_isFinite (d_mul (d_mul (Finite pi) (Finite 2)) (Finite frequency))"
  shows "serpentinize points frequency amplitude taperFraction =
           replicate (length points) nanVector"
  using assms(1,2) by (simp add: serpentinize_def Let_def serpStep_fold_overflow [OF assms(3)])

lemma serpentinize_total_overflow:
  assumes n: "3 \<le> length points"
    and nl: "\<not> d_less (snd (arcLengths points)) (Finite (1 / 1000000000))"
    and tot: "\<not> d_isFinite (snd (arcLengths points))"
  shows "\<exists>xs. serpentinize points frequency amplitude taperFraction = xs @ [nanVector]"
proof -
  let ?pt = "\<lambda>k. snd (fold (arcStep points) [0..<k] ([Finite 0], Finite 0))"
  have S: "Suc (length points - 1) = length points" using n by simp
  then have cum: "fst (arcLengths points) = map ?pt [0..<length points]"
    using arcLengths_cum [of points "length points - 1"] by (simp only: arcLengths_def)
  have "length points - 1 < length points" using n by linarith
  then have last: "fst (arcLengths points) ! (length points - 1) = snd (arcLengths points)"
    unfolding cum by (simp add: arcLengths_def)
  define step where "step = serpStep points (fst (arcLengths points)) (snd (arcLengths points))
                       frequency amplitude taperFraction"
  define s0 where "s0 = ([] :: DVector3 list, d_vsub (points ! 1) (points ! 0),
                    d_initialNormalFromTangent (d_vsub (points ! 1) (points ! 0)))"
  have "serpentinize points frequency amplitude taperFraction =
          fst (fold step [0..<Suc (length points - 1)] s0)"
    unfolding S using n nl by (simp add: serpentinize_def Let_def step_def s0_def)
  also have "\<dots> = fst (step (length points - 1) (fold step [0..<length points - 1] s0))"
    by simp
  also have "\<dots> = fst (fold step [0..<length points - 1] s0) @ [nanVector]"
    unfolding step_def serpStep_out last d_div_self_NaN [OF tot]
    by (simp add: d_addScaledVector_NaN)
  finally show ?thesis by blast
qed

lemma ofVector3_not_nan: "ofVector3 p \<noteq> nanVector"
  by (simp add: ofVector3_def nanVector_def)

lemma map_ofVector3_not_nan:
  assumes "map ofVector3 points = xs @ [nanVector]"
  shows False
proof -
  have "nanVector \<in> set (map ofVector3 points)" using assms by simp
  then obtain p where "nanVector = ofVector3 p" by auto
  then show False using ofVector3_not_nan [of p] by simp
qed

lemma two_pi_frequency_overflow:
  "d_mul (d_mul (Finite pi) (Finite 2)) (Finite (10 ^ 308)) = PosInf"
proof -
  have "\<bar>pi * 2\<bar> \<le> 8" using pi_less_4 pi_gt_zero by simp
  then have 1: "overflow (pi * 2) = Finite (pi * 2)" by (rule overflow_small)
  have "maxDouble < 2 ^ 1024" by (rule maxDouble_lt)
  also have "(2::real) ^ 1024 \<le> 4 * 10 ^ 308" by simp
  also have "\<dots> \<le> pi * 2 * 10 ^ 308" using pi_ge_two by simp
  finally have "overflow (pi * 2 * 10 ^ 308) = PosInf" by (simp add: overflow_def)
  then show ?thesis by (simp add: 1)
qed

lemma two_pi_frequency_finite:
  "d_mul (d_mul (Finite pi) (Finite 2)) (Finite 15) = Finite (pi * 2 * 15)"
proof -
  have "\<bar>pi * 2\<bar> \<le> 8" using pi_less_4 pi_gt_zero by simp
  then have 1: "overflow (pi * 2) = Finite (pi * 2)" by (rule overflow_small)
  have "pi * 2 * 15 \<le> 2 ^ 1023" using pi_less_4 by simp
  then have "\<bar>pi * 2 * 15\<bar> \<le> maxDouble" using maxDouble_ge pi_gt_zero by simp
  then have "overflow (pi * 2 * 15) = Finite (pi * 2 * 15)"
    by (intro overflow_isDouble) (simp add: isDouble_def)
  then show ?thesis by (simp add: 1)
qed

text \<open>
  Claim C8, as stated, fails. With frequency \<open>1e308\<close> the product
  \<open>(Math.PI * 2) * frequency\<close> is beyond the largest double and becomes \<open>Infinity\<close>;
  \<open>theta\<close> is then \<open>Infinity\<close> or NaN, its sine is NaN, and the displacement
  \<open>NaN * 0 * envelope\<close> is NaN. The three points of a straight polyline of length 2
  come back as three vectors of NaN.
\<close>

theorem serpentinize_zero_amplitude_nan:
  "serpentinize [Vector3 0 0 0, Vector3 1 0 0, Vector3 2 0 0] (10 ^ 308) 0 (15 / 100)
     = [nanVector, nanVector, nanVector] \<and>
   serpentinize [Vector3 0 0 0, Vector3 1 0 0, Vector3 2 0 0] (10 ^ 308) 0 (15 / 100)
     \<noteq> map ofVector3 [Vector3 0 0 0, Vector3 1 0 0, Vector3 2 0 0]"
proof -
  have "serpentinize [Vector3 0 0 0, Vector3 1 0 0, Vector3 2 0 0] (10 ^ 308) 0 (15 / 100)
          = replicate (length [Vector3 0 0 0, Vector3 1 0 0, Vector3 2 0 0]) nanVector"
  proof (rule serpentinize_frequency_overflow)
    show "3 \<le> length [Vector3 0 0 0, Vector3 1 0 0, Vector3 2 0 0]" by simp
    show "\<not> d_less (snd (arcLengths [Vector3 0 0 0, Vector3 1 0 0, Vector3 2 0 0]))
               (Finite (1 / 1000000000))"
      by (simp add: arcLengths_three_steps)
    show "\<not> d_isFinite (d_mul (d_mul (Finite pi) (Finite 2)) (Finite (10 ^ 308)))"
      by (simp only: two_pi_frequency_overflow d_isFinite.simps not_False_eq_True)
  qed
  then show ?thesis by (simp add: numeral_3_eq_3 ofVector3_def nanVector_def)
qed

text \<open>
  Claim C8, amended. For a polyline whose coordinates are doubles, and for every
  frequency and taper fraction, \<open>serpentinize\<close> with amplitude 0 returns the input
  points exactly when the polyline has fewer than three points, or its computed total
  length is below \<open>1e-9\<close>, or that total and the computed product
  \<open>(Math.PI * 2) * frequency\<close> are both finite. In the remaining case (three points or
  more, and the total or the product overflowed) the output holds a vector of NaN.
\<close>

theorem serpentinize_zero_amplitude_finite:
  assumes "\<forall>p\<in>set points. isDouble (vx p) \<and> isDouble (vy p) \<and> isDouble (vz p)"
  shows "serpentinize points frequency 0 taperFraction = map ofVector3 points \<longleftrightarrow>
           length points < 3 \<or>
           d_less (snd (arcLengths points)) (Finite (1 / 1000000000)) \<or>
           d_isFinite (snd (arcLengths points)) \<and>
           d_isFinite (d_mul (d_mul (Finite pi) (Finite 2)) (Finite frequency))"
proof
  assume eq: "serpentinize points frequency 0 taperFraction = map ofVector3 points"
  show "length points < 3 \<or>
           d_less (snd (arcLengths points)) (Finite (1 / 1000000000)) \<or>
           d_isFinite (snd (arcLengths points)) \<and>
           d_isFinite (d_mul (d_mul (Finite pi) (Finite 2)) (Finite frequency))"
  proof (rule ccontr)
    assume neg: "\<not> ?thesis"
    then have n: "3 \<le> length points"
      and nl: "\<not> d_less (snd (arcLengths points)) (Finite (1 / 1000000000))"
      by simp_all
    have "points \<noteq> []" using n by auto
    from neg consider "\<not> d_isFinite (snd (arcLengths points))"
      | "\<not> d_isFinite (d_mul (d_mul (Finite pi) (Finite 2)) (Finite frequency))"
      by blast
    then show False
    proof cases
      case 1
      from serpentinize_total_overflow [OF n nl 1, of frequency 0 taperFraction] eq
      show False using map_ofVector3_not_nan by metis
    next
      case 2
      have "replicate (length points) nanVector = replicate (length points - 1) nanVector @ [nanVector]"
        using n by (simp add: replicate_append_same flip: replicate_Suc)
      with serpentinize_frequency_overflow [OF n nl 2, of 0 taperFraction] eq
      show False using map_ofVector3_not_nan by metis
    qed
  qed
next
  assume "length points < 3 \<or>
           d_less (snd (arcLengths points)) (Finite (1 / 1000000000)) \<or>
           d_isFinite (snd (arcLengths points)) \<and>
           d_isFinite (d_mul (d_mul (Finite pi) (Finite 2)) (Finite frequency))"
  then consider "length points < 3 \<or> d_less (snd (arcLengths points)) (Finite (1 / 1000000000))"
    | "d_isFinite (snd (arcLengths points))"
      "d_isFinite (d_mul (d_mul (Finite pi) (Finite 2)) (Finite frequency))"
    by blast
  then show "serpentinize points frequency 0 taperFraction = map ofVector3 points"
  proof cases
    case 1
    then show ?thesis by (auto simp: serpentinize_def Let_def)
  next
    case 2
    have "\<bar>pi * 2\<bar> \<le> 8" using pi_less_4 pi_gt_zero by simp
    then have "overflow (pi * 2) = Finite (pi * 2)"
      by (intro overflow_isDouble isDouble_small)
    then have "isDouble (pi * 2 * frequency)"
      using 2(2) by (simp add: overflow_def isDouble_def split: if_splits)
    from serpentinize_zero_amplitude_main [OF assms 2(1) this] show ?thesis .
  qed
qed

theorem serpentinize_zero_amplitude_finite_witness:
  "isDouble 0 \<and> isDouble 1 \<and> isDouble 2 \<and>
   \<not> length [Vector3 0 0 0, Vector3 1 0 0, Vector3 2 0 0] < 3 \<and>
   \<not> d_less (snd (arcLengths [Vector3 0 0 0, Vector3 1 0 0, Vector3 2 0 0])) (Finite (1 / 1000000000)) \<and>
   d_isFinite (snd (arcLengths [Vector3 0 0 0, Vector3 1 0 0, Vector3 2 0 0])) \<and>
   d_isFinite (d_mul (d_mul (Finite pi) (Finite 2)) (Finite 15)) \<and>
   serpentinize [Vector3 0 0 0, Vector3 1 0 0, Vector3 2 0 0] 15 0 (15 / 100)
     = map ofVector3 [Vector3 0 0 0, Vector3 1 0 0, Vector3 2 0 0]"
proof -
  have f: "d_isFinite (d_mul (d_mul (Finite pi) (Finite 2)) (Finite 15))"
    by (simp only: two_pi_frequency_finite d_isFinite.simps)
  show ?thesis
    using serpentinize_zero_amplitude_finite [of "[Vector3 0 0 0, Vector3 1 0 0, Vector3 2 0 0]" 15 "15 / 100"] f
    by (simp add: arcLengths_three_steps isDouble_small del: d_mul.simps)
qed

section \<open>Every generated network is well formed\<close>

subsection \<open>Adding nodes and edges\<close>

lemma addNode_simps [simp]:
  "fst (addNode g x y z) = int (length (nodes g))"
  "nodes (snd (addNode g x y z)) = nodes g @ [Vector3 x y z]"
  "edges (snd (addNode g x y z)) = edges g"
  by (simp_all add: addNode_def)

lemma link_simps [simp]:
  "nodes (link g a b) = nodes g"
  "edges (link g a b) = edges g @ [(a, b)]"
  by (simp_all add: link_def)

lemma edgesValid_grow:
  "edgesValid g \<Longrightarrow> edges g' = edges g \<Longrightarrow> length (nodes g) \<le> length (nodes g') \<Longrightarrow>
   edgesValid g'"
  by (auto simp: edgesValid_def list_all_iff)

lemma edgesValid_link [simp]:
  "edgesValid (link g a b) \<longleftrightarrow>
     edgesValid g \<and> 0 \<le> a \<and> a < int (length (nodes g)) \<and> 0 \<le> b \<and>
     b < int (length (nodes g)) \<and> a \<noteq> b"
  by (auto simp: edgesValid_def)

lemma edgesValid_empty [simp]: "edgesValid \<lparr>nodes = [], edges = []\<rparr>"
  by (simp add: edgesValid_def)

subsection \<open>Loops\<close>

lemma fold_invariant:
  assumes "P s" and "\<And>x s. x \<in> set xs \<Longrightarrow> P s \<Longrightarrow> P (f x s)"
  shows "P (fold f xs s)"
  using assms by (induction xs arbitrary: s) auto

lemma fold_upt_invariant:
  assumes "P 0 s" and "\<And>i s. i < n \<Longrightarrow> P i s \<Longrightarrow> P (Suc i) (f i s)"
  shows "P n (fold f [0..<n] s)"
  using assms by (induction n) auto

text \<open>
  A loop whose body adds one node and records its identifier: after \<open>m\<close> rounds the
  recorded identifiers are the \<open>m\<close> next positions, in order.
\<close>

lemma fold_appendsNode:
  assumes "\<And>j st. edges (fst (f j st)) = edges (fst st)"
    and "\<And>j st. length (nodes (fst (f j st))) = Suc (length (nodes (fst st)))"
    and "\<And>j st. snd (f j st) = snd st @ [int (length (nodes (fst st)))]"
  shows "edges (fst (fold f [0..<m] st)) = edges (fst st) \<and>
         length (nodes (fst (fold f [0..<m] st))) = length (nodes (fst st)) + m \<and>
         snd (fold f [0..<m] st) = snd st @ map (\<lambda>j. int (length (nodes (fst st)) + j)) [0..<m]"
  by (induction m) (simp_all add: assms)

lemma mod_succ_neq:
  assumes "1 < m" and "s < m"
  shows "Suc s mod m \<noteq> s"
proof (cases "Suc s = m")
  case True
  then show ?thesis
    using assms by auto
next
  case False
  then have "Suc s < m"
    using assms by simp
  then show ?thesis
    by simp
qed

lemma nth_ids: "s < m \<Longrightarrow> map (\<lambda>j. int (n + j)) [0..<m] ! s = int (n + s)"
  by simp

subsection \<open>Vase\<close>

lemma vaseNode_appends:
  "edges (fst (vaseNode y rad segments r s st)) = edges (fst st)"
  "length (nodes (fst (vaseNode y rad segments r s st))) = Suc (length (nodes (fst st)))"
  "snd (vaseNode y rad segments r s st) = snd st @ [int (length (nodes (fst st)))]"
  by (simp_all add: vaseNode_def Let_def split_beta)

lemma vaseLinks_valid:
  assumes s: "s < 6" and g: "edgesValid g" "length (nodes g) = 6 * r + 6"
    and cur: "cur = map (\<lambda>j. int (6 * r + j)) [0..<6]"
    and prev: "r > 0 \<Longrightarrow> prev = map (\<lambda>j. int (6 * (r - 1) + j)) [0..<6]"
  shows "edgesValid (vaseLinks 6 r prev cur s g) \<and>
         length (nodes (vaseLinks 6 r prev cur s g)) = 6 * r + 6"
proof -
  define k where "k = Suc s mod 6"
  have k: "k < 6" "k \<noteq> s"
    using s mod_succ_neq [of 6 s] by (simp_all add: k_def)
  have c: "cur ! s = int (6 * r + s)" "cur ! k = int (6 * r + k)"
    using s k by (simp_all add: cur nth_ids del: upt_Suc)
  show ?thesis
  proof (cases "r > 0")
    case True
    then have p: "prev ! s = int (6 * (r - 1) + s)"
      using s prev by (simp add: nth_ids del: upt_Suc)
    show ?thesis
      using True s k g by (simp add: vaseLinks_def Let_def k_def [symmetric] c p)
  next
    case False
    then show ?thesis
      using s k g by (simp add: vaseLinks_def Let_def k_def [symmetric] c)
  qed
qed

lemma vaseRing_inv:
  assumes "ringInv 6 r st"
  shows "ringInv 6 (Suc r) (vaseRing params 8 6 r st)"
proof -
  define y where "y = (real r / (real 8 - 1)) * height params"
  define rad where
    "rad = width params * 0.4 + sin ((real r / (real 8 - 1)) * pi) * 0.3 + (real r / real 8) * 0.1"
  define added where "added = fold (vaseNode y rad 6 r) [0..<6] (fst st, [])"
  have st: "edgesValid (fst st)" "length (nodes (fst st)) = 6 * r"
    using assms by (simp_all add: ringInv_def)
  have a: "edges (fst added) = edges (fst st)" "length (nodes (fst added)) = 6 * r + 6"
    "snd added = map (\<lambda>j. int (6 * r + j)) [0..<6]"
    using fold_appendsNode [of "vaseNode y rad 6 r" 6 "(fst st, [])", OF vaseNode_appends] st
    by (simp_all add: added_def del: upt_Suc)
  have v: "edgesValid (fst added)"
    using st a by (auto intro: edgesValid_grow)
  have p: "r > 0 \<Longrightarrow> snd st = map (\<lambda>j. int (6 * (r - 1) + j)) [0..<6]"
    using assms by (simp add: ringInv_def)
  define g where "g = fold (vaseLinks 6 r (snd st) (snd added)) [0..<6] (fst added)"
  have "edgesValid g \<and> length (nodes g) = 6 * r + 6"
    unfolding g_def
  proof (rule fold_invariant [where P = "\<lambda>g. edgesValid g \<and> length (nodes g) = 6 * r + 6"])
    show "edgesValid (fst added) \<and> length (nodes (fst added)) = 6 * r + 6"
      using v a by simp
  next
    fix s h
    assume "s \<in> set [0..<6]" and "edgesValid h \<and> length (nodes h) = 6 * r + 6"
    then show "edgesValid (vaseLinks 6 r (snd st) (snd added) s h) \<and>
        length (nodes (vaseLinks 6 r (snd st) (snd added) s h)) = 6 * r + 6"
      using vaseLinks_valid [of s h r "snd added" "snd st"] a(3) p by simp
  qed
  moreover have "vaseRing params 8 6 r st = (g, snd added)"
    by (simp add: vaseRing_def Let_def added_def y_def rad_def g_def del: upt_Suc)
  ultimately show ?thesis
    using a by (simp add: ringInv_def del: upt_Suc)
qed

lemma linearVase_valid: "edgesValid (linearVase \<lparr>nodes = [], edges = []\<rparr> params)"
proof -
  have "ringInv 6 8 (fold (vaseRing params 8 6) [0..<8] (\<lparr>nodes = [], edges = []\<rparr>, []))"
  proof (rule fold_upt_invariant [where P = "ringInv 6"])
    show "ringInv 6 0 (\<lparr>nodes = [], edges = []\<rparr>, [])"
      by (simp add: ringInv_def)
  next
    fix i s
    assume "ringInv 6 i s"
    then show "ringInv 6 (Suc i) (vaseRing params 8 6 i s)"
      by (rule vaseRing_inv)
  qed
  then show ?thesis
    by (simp add: linearVase_def Let_def ringInv_def del: upt_Suc)
qed

subsection \<open>Chair, table, stool, bench and shelf\<close>

text \<open>These builders run a fixed number of steps, so their edges are computed outright.\<close>

lemma upt_3: "[0..<3] = [0, 1, 2]"
  by (simp add: upt_rec)

lemma upt_4: "[0..<4] = [0, 1, 2, 3]"
  by (simp add: upt_rec)

lemma generateLinearChair_edges:
  "edges (generateLinearChair \<lparr>nodes = [], edges = []\<rparr> params) =
     [(0, 4), (1, 5), (2, 6), (3, 7), (4, 5), (5, 7), (7, 6), (6, 4), (4, 7), (5, 6),
      (6, 8), (7, 9), (8, 9), (8, 7), (9, 6), (10, 12), (11, 13)]"
  by (simp add: generateLinearChair_def Let_def addNode_def link_def)

lemma generateLinearChair_length:
  "length (nodes (generateLinearChair \<lparr>nodes = [], edges = []\<rparr> params)) = 14"
  by (simp add: generateLinearChair_def Let_def addNode_def link_def)

lemma generateLinearChair_valid:
  "edgesValid (generateLinearChair \<lparr>nodes = [], edges = []\<rparr> params)"
  by (simp add: edgesValid_def generateLinearChair_edges generateLinearChair_length)

lemma generateLinearTable_edges:
  "edges (generateLinearTable \<lparr>nodes = [], edges = []\<rparr> params) =
     [(0, 4), (1, 5), (2, 6), (3, 7), (4, 5), (5, 7), (7, 6), (6, 4),
      (4, 8), (8, 5), (6, 9), (9, 7), (4, 10), (10, 6), (5, 11), (11, 7),
      (10, 12), (12, 11), (8, 12), (12, 9)]"
  by (simp add: generateLinearTable_def Let_def addNode_def link_def)

lemma generateLinearTable_length:
  "length (nodes (generateLinearTable \<lparr>nodes = [], edges = []\<rparr> params)) = 13"
  by (simp add: generateLinearTable_def Let_def addNode_def link_def)

lemma generateLinearTable_valid:
  "edgesValid (generateLinearTable \<lparr>nodes = [], edges = []\<rparr> params)"
  by (simp add: edgesValid_def generateLinearTable_edges generateLinearTable_length)

lemma generateLinearStool_edges:
  "edges (generateLinearStool \<lparr>nodes = [], edges = []\<rparr> params) =
     [(0, 1), (1, 3), (0, 3), (8, 9), (2, 3), (3, 5), (2, 5), (10, 11),
      (4, 5), (5, 7), (4, 7), (12, 13), (6, 7), (7, 1), (6, 1), (14, 15)]"
  by (simp add: generateLinearStool_def Let_def stoolRing_def stoolLinks_def addNode_def
      link_def upt_4)

lemma generateLinearStool_length:
  "length (nodes (generateLinearStool \<lparr>nodes = [], edges = []\<rparr> params)) = 16"
  by (simp add: generateLinearStool_def Let_def stoolRing_def stoolLinks_def addNode_def
      link_def upt_4)

lemma generateLinearStool_valid:
  "edgesValid (generateLinearStool \<lparr>nodes = [], edges = []\<rparr> params)"
  by (simp add: edgesValid_def generateLinearStool_edges generateLinearStool_length)

lemma linearBench_edges:
  "edges (linearBench \<lparr>nodes = [], edges = []\<rparr> params) =
     [(0, 2), (1, 3), (2, 3),
      (4, 6), (5, 7), (6, 7), (2, 6), (3, 7), (2, 7), (3, 6),
      (8, 10), (9, 11), (10, 11), (6, 10), (7, 11), (6, 11), (7, 10)]"
  by (simp add: linearBench_def Let_def benchFrame_def addNode_def link_def upt_3)

lemma linearBench_length:
  "length (nodes (linearBench \<lparr>nodes = [], edges = []\<rparr> params)) = 12"
  by (simp add: linearBench_def Let_def benchFrame_def addNode_def link_def upt_3)

lemma linearBench_valid: "edgesValid (linearBench \<lparr>nodes = [], edges = []\<rparr> params)"
  by (simp add: edgesValid_def linearBench_edges linearBench_length)

lemma linearShelf_edges:
  "edges (linearShelf \<lparr>nodes = [], edges = []\<rparr> params) =
     [(0, 1), (1, 3), (3, 2), (2, 0), (0, 3), (1, 2),
      (4, 5), (5, 7), (7, 6), (6, 4), (4, 7), (5, 6), (0, 4), (1, 5), (2, 6), (3, 7),
      (8, 9), (9, 11), (11, 10), (10, 8), (8, 11), (9, 10), (4, 8), (5, 9), (6, 10), (7, 11),
      (12, 13), (13, 15), (15, 14), (14, 12), (12, 15), (13, 14),
      (8, 12), (9, 13), (10, 14), (11, 15)]"
  by (simp add: linearShelf_def Let_def shelfLevel_def addNode_def link_def upt_4)

lemma linearShelf_length:
  "length (nodes (linearShelf \<lparr>nodes = [], edges = []\<rparr> params)) = 16"
  by (simp add: linearShelf_def Let_def shelfLevel_def addNode_def link_def upt_4)

lemma linearShelf_valid: "edgesValid (linearShelf \<lparr>nodes = [], edges = []\<rparr> params)"
  by (simp add: edgesValid_def linearShelf_edges linearShelf_length)

subsection \<open>Lamp\<close>

lemma lampNode_appends:
  "edges (fst (lampNode params pointsPerLayer t y currentRad j st)) = edges (fst st)"
  "length (nodes (fst (lampNode params pointsPerLayer t y currentRad j st))) =
     Suc (length (nodes (fst st)))"
  "snd (lampNode params pointsPerLayer t y currentRad j st) =
     snd st @ [int (length (nodes (fst st)))]"
  by (simp_all add: lampNode_def Let_def split_beta)

lemma lampLinks_valid:
  assumes j: "j < 9" and g: "edgesValid g" "length (nodes g) = 9 * i + 9"
    and cur: "cur = map (\<lambda>j. int (9 * i + j)) [0..<9]"
    and prev: "prev = map (\<lambda>j. int (9 * (i - 1) + j)) [0..<9]" and i: "i > 0"
  shows "edgesValid (lampLinks 9 prev cur j g) \<and>
         length (nodes (lampLinks 9 prev cur j g)) = 9 * i + 9"
proof -
  define k where "k = Suc j mod 9"
  have k: "k < 9" "k \<noteq> j"
    using j mod_succ_neq [of 9 j] by (simp_all add: k_def)
  have c: "cur ! j = int (9 * i + j)" "cur ! k = int (9 * i + k)"
    using j k by (simp_all add: cur nth_ids del: upt_Suc)
  have p: "prev ! j = int (9 * (i - 1) + j)" "prev ! k = int (9 * (i - 1) + k)"
    using j k by (simp_all add: prev nth_ids del: upt_Suc)
  show ?thesis
    using i j k g by (simp add: lampLinks_def Let_def k_def [symmetric] c p)
qed

lemma lampBaseLinks_valid:
  assumes j: "j < 9" and g: "edgesValid g" "length (nodes g) = 9 * i + 9"
    and cur: "cur = map (\<lambda>j. int (9 * i + j)) [0..<9]"
  shows "edgesValid (lampBaseLinks 9 cur j g) \<and>
         length (nodes (lampBaseLinks 9 cur j g)) = 9 * i + 9"
proof -
  define k where "k = Suc j mod 9"
  have k: "k < 9" "k \<noteq> j"
    using j mod_succ_neq [of 9 j] by (simp_all add: k_def)
  have c: "cur ! j = int (9 * i + j)" "cur ! k = int (9 * i + k)"
    using j k by (simp_all add: cur nth_ids del: upt_Suc)
  show ?thesis
    using j k g by (simp add: lampBaseLinks_def k_def [symmetric] c)
qed

lemma lampLayer_inv:
  assumes "ringInv 9 i st"
  shows "ringInv 9 (Suc i) (lampLayer params 16 9 i st)"
proof -
  define t where "t = real i / real 16"
  define y where "y = t * height params"
  define currentRad where
    "currentRad = lerp (width params * 0.4) (width params * 0.25) t * (1 - sin (t * pi) * 0.5)"
  define added where "added = fold (lampNode params 9 t y currentRad) [0..<9] (fst st, [])"
  have st: "edgesValid (fst st)" "length (nodes (fst st)) = 9 * i"
    using assms by (simp_all add: ringInv_def)
  have a: "edges (fst added) = edges (fst st)" "length (nodes (fst added)) = 9 * i + 9"
    "snd added = map (\<lambda>j. int (9 * i + j)) [0..<9]"
    using fold_appendsNode [of "lampNode params 9 t y currentRad" 9 "(fst st, [])",
        OF lampNode_appends] st
    by (simp_all add: added_def del: upt_Suc)
  have v: "edgesValid (fst added) \<and> length (nodes (fst added)) = 9 * i + 9"
    using st a by (auto intro: edgesValid_grow)
  have p: "i > 0 \<Longrightarrow> snd st = map (\<lambda>j. int (9 * (i - 1) + j)) [0..<9]"
    using assms by (simp add: ringInv_def)
  define g where
    "g = (if i > 0 then fold (lampLinks 9 (snd st) (snd added)) [0..<9] (fst added)
          else fold (lampBaseLinks 9 (snd added)) [0..<9] (fst added))"
  have "edgesValid g \<and> length (nodes g) = 9 * i + 9"
  proof (cases "i > 0")
    case True
    have "edgesValid (fold (lampLinks 9 (snd st) (snd added)) [0..<9] (fst added)) \<and>
          length (nodes (fold (lampLinks 9 (snd st) (snd added)) [0..<9] (fst added))) = 9 * i + 9"
    proof (rule fold_invariant [where P = "\<lambda>g. edgesValid g \<and> length (nodes g) = 9 * i + 9"])
      show "edgesValid (fst added) \<and> length (nodes (fst added)) = 9 * i + 9"
        by (rule v)
    next
      fix j h
      assume "j \<in> set [0..<9]" and "edgesValid h \<and> length (nodes h) = 9 * i + 9"
      then show "edgesValid (lampLinks 9 (snd st) (snd added) j h) \<and>
          length (nodes (lampLinks 9 (snd st) (snd added) j h)) = 9 * i + 9"
        using lampLinks_valid [of j h i "snd added" "snd st"] a(3) p True by simp
    qed
    then show ?thesis
      using True by (simp add: g_def)
  next
    case False
    have "edgesValid (fold (lampBaseLinks 9 (snd added)) [0..<9] (fst added)) \<and>
          length (nodes (fold (lampBaseLinks 9 (snd added)) [0..<9] (fst added))) = 9 * i + 9"
    proof (rule fold_invariant [where P = "\<lambda>g. edgesValid g \<and> length (nodes g) = 9 * i + 9"])
      show "edgesValid (fst added) \<and> length (nodes (fst added)) = 9 * i + 9"
        by (rule v)
    next
      fix j h
      assume "j \<in> set [0..<9]" and "edgesValid h \<and> length (nodes h) = 9 * i + 9"
      then show "edgesValid (lampBaseLinks 9 (snd added) j h) \<and>
          length (nodes (lampBaseLinks 9 (snd added) j h)) = 9 * i + 9"
        using lampBaseLinks_valid [of j h i "snd added"] a(3) by simp
    qed
    then show ?thesis
      using False by (simp add: g_def)
  qed
  moreover have "lampLayer params 16 9 i st = (g, snd added)"
    by (simp add: lampLayer_def Let_def added_def t_def y_def currentRad_def g_def del: upt_Suc)
  ultimately show ?thesis
    using a by (simp add: ringInv_def del: upt_Suc)
qed

lemma linearLamp_valid: "edgesValid (linearLamp \<lparr>nodes = [], edges = []\<rparr> params)"
proof -
  have "ringInv 9 17 (fold (lampLayer params 16 9) [0..<17] (\<lparr>nodes = [], edges = []\<rparr>, []))"
  proof (rule fold_upt_invariant [where P = "ringInv 9"])
    show "ringInv 9 0 (\<lparr>nodes = [], edges = []\<rparr>, [])"
      by (simp add: ringInv_def)
  next
    fix i s
    assume "ringInv 9 i s"
    then show "ringInv 9 (Suc i) (lampLayer params 16 9 i s)"
      by (rule lampLayer_inv)
  qed
  then show ?thesis
    by (simp add: linearLamp_def Let_def ringInv_def del: upt_Suc)
qed

subsection \<open>Moebius strip\<close>

lemma mobiusNode_appends:
  "edges (fst (mobiusNode params segmentsS t j st)) = edges (fst st)"
  "length (nodes (fst (mobiusNode params segmentsS t j st))) = Suc (length (nodes (fst st)))"
  "snd (mobiusNode params segmentsS t j st) = snd st @ [int (length (nodes (fst st)))]"
  by (simp_all add: mobiusNode_def Let_def split_beta)

text \<open>After \<open>i\<close> rows the grid holds the identifiers \<open>5 * i' + j\<close>, and no edge yet.\<close>

lemma mobiusRow_inv:
  assumes "edges (fst st) = []" and "length (nodes (fst st)) = 5 * i"
    and "snd st = map (\<lambda>i'. map (\<lambda>j. int (5 * i' + j)) [0..<5]) [0..<i]"
  shows "edges (fst (mobiusRow params 64 4 i st)) = [] \<and>
         length (nodes (fst (mobiusRow params 64 4 i st))) = 5 * Suc i \<and>
         snd (mobiusRow params 64 4 i st) =
           map (\<lambda>i'. map (\<lambda>j. int (5 * i' + j)) [0..<5]) [0..<Suc i]"
proof -
  define t where "t = (real i / real 64) * pi * 2"
  define added where "added = fold (mobiusNode params 4 t) [0..<5] (fst st, [])"
  have a: "edges (fst added) = []" "length (nodes (fst added)) = 5 * i + 5"
    "snd added = map (\<lambda>j. int (5 * i + j)) [0..<5]"
    using fold_appendsNode [of "mobiusNode params 4 t" 5 "(fst st, [])", OF mobiusNode_appends]
      assms
    by (simp_all add: added_def del: upt_Suc)
  have "mobiusRow params 64 4 i st = (fst added, snd st @ [snd added])"
    by (simp add: mobiusRow_def Let_def added_def t_def del: upt_Suc)
  then show ?thesis
    using a assms(3) by (simp del: upt_Suc add: upt_Suc_append)
qed

lemma mobiusLinks_valid:
  assumes i: "i < 64" and j: "j < 5" and g: "edgesValid g" "length (nodes g) = 320"
    and grid: "grid = map (\<lambda>i'. map (\<lambda>j. int (5 * i' + j)) [0..<5]) [0..<64]"
  shows "edgesValid (mobiusLinks 64 4 grid i j g) \<and>
         length (nodes (mobiusLinks 64 4 grid i j g)) = 320"
proof -
  have cell: "\<And>a b. a < 64 \<Longrightarrow> b < 5 \<Longrightarrow> grid ! a ! b = int (5 * a + b)"
    by (simp add: grid del: upt_Suc)
  define k where "k = Suc i mod 64"
  have k: "k < 64" by (simp add: k_def)
  have k0: "k = 0 \<longleftrightarrow> i = 63"
    using i by (auto simp: k_def mod_Suc)
  have kS: "k \<noteq> 0 \<Longrightarrow> k = Suc i"
    using i by (auto simp: k_def mod_Suc split: if_splits)
  have c: "grid ! i ! j = int (5 * i + j)"
    using i j by (simp add: cell)
  show ?thesis
  proof (cases "k = 0")
    case True
    then have i63: "i = 63" using k0 by simp
    have n: "grid ! 0 ! (4 - j) = int (4 - j)"
      using j cell [of 0 "4 - j"] by simp
    show ?thesis
    proof (cases "j < 4")
      case True
      then have "grid ! i ! Suc j = int (5 * i + Suc j)"
        using i by (simp add: cell)
      then show ?thesis
        using \<open>k = 0\<close> True g i63 j n c
        by (simp add: mobiusLinks_def Let_def k_def [symmetric])
    next
      case False
      then show ?thesis
        using \<open>k = 0\<close> g i63 j n c
        by (simp add: mobiusLinks_def Let_def k_def [symmetric])
    qed
  next
    case False
    then have ks: "k = Suc i" using kS by simp
    then have i62: "i < 63" using k by simp
    have n: "grid ! k ! j = int (5 * Suc i + j)"
      using k j ks cell [of k j] by simp
    show ?thesis
    proof (cases "j < 4")
      case True
      then have "grid ! i ! Suc j = int (5 * i + Suc j)" "grid ! k ! Suc j = int (5 * Suc i + Suc j)"
        using i k ks cell [of k "Suc j"] by (simp_all add: cell)
      then show ?thesis
        using False True g i62 j n c
        by (simp add: mobiusLinks_def Let_def k_def [symmetric])
    next
      case nj: False
      then show ?thesis
        using False g i62 j n c
        by (simp add: mobiusLinks_def Let_def k_def [symmetric])
    qed
  qed
qed

lemma linearMobius_valid: "edgesValid (linearMobius \<lparr>nodes = [], edges = []\<rparr> params)"
proof -
  define built where
    "built = fold (mobiusRow params 64 4) [0..<64] (\<lparr>nodes = [], edges = []\<rparr>, [])"
  have b: "edges (fst built) = [] \<and> length (nodes (fst built)) = 5 * 64 \<and>
        snd built = map (\<lambda>i'. map (\<lambda>j. int (5 * i' + j)) [0..<5]) [0..<64]"
    unfolding built_def
  proof (rule fold_upt_invariant [where P = "\<lambda>i st. edges (fst st) = [] \<and>
        length (nodes (fst st)) = 5 * i \<and>
        snd st = map (\<lambda>i'. map (\<lambda>j. int (5 * i' + j)) [0..<5]) [0..<i]"])
    show "edges (fst (\<lparr>nodes = [], edges = []\<rparr>, [])) = [] \<and>
        length (nodes (fst (\<lparr>nodes = [], edges = []\<rparr>, []))) = 5 * 0 \<and>
        snd (\<lparr>nodes = [], edges = []\<rparr>, []) =
          map (\<lambda>i'. map (\<lambda>j. int (5 * i' + j)) [0..<5]) [0..<0]"
      by simp
  next
    fix i and st :: "NetworkData \<times> int list list"
    assume "edges (fst st) = [] \<and> length (nodes (fst st)) = 5 * i \<and>
        snd st = map (\<lambda>i'. map (\<lambda>j. int (5 * i' + j)) [0..<5]) [0..<i]"
    then show "edges (fst (mobiusRow params 64 4 i st)) = [] \<and>
         length (nodes (fst (mobiusRow params 64 4 i st))) = 5 * Suc i \<and>
         snd (mobiusRow params 64 4 i st) =
           map (\<lambda>i'. map (\<lambda>j. int (5 * i' + j)) [0..<5]) [0..<Suc i]"
      using mobiusRow_inv [of st i params] by blast
  qed
  define g where
    "g = fold (\<lambda>i. fold (mobiusLinks 64 4 (snd built) i) [0..<5]) [0..<64] (fst built)"
  have v: "edgesValid g \<and> length (nodes g) = 320"
    unfolding g_def
  proof (rule fold_invariant [where P = "\<lambda>g. edgesValid g \<and> length (nodes g) = 320"])
    show "edgesValid (fst built) \<and> length (nodes (fst built)) = 320"
      using b by (simp add: edgesValid_def)
  next
    fix i h
    assume i: "i \<in> set [0..<64]" and h: "edgesValid h \<and> length (nodes h) = 320"
    show "edgesValid (fold (mobiusLinks 64 4 (snd built) i) [0..<5] h) \<and>
        length (nodes (fold (mobiusLinks 64 4 (snd built) i) [0..<5] h)) = 320"
    proof (rule fold_invariant [where P = "\<lambda>g. edgesValid g \<and> length (nodes g) = 320"])
      show "edgesValid h \<and> length (nodes h) = 320"
        by (rule h)
    next
      fix j h'
      assume "j \<in> set [0..<5]" and "edgesValid h' \<and> length (nodes h') = 320"
      then show "edgesValid (mobiusLinks 64 4 (snd built) i j h') \<and>
          length (nodes (mobiusLinks 64 4 (snd built) i j h')) = 320"
        using mobiusLinks_valid [of i j h' "snd built"] i b by simp
    qed
  qed
  have "linearMobius \<lparr>nodes = [], edges = []\<rparr> params = g\<lparr>nodes := map clampToFloor (nodes g)\<rparr>"
    by (simp add: linearMobius_def Let_def g_def built_def del: upt_Suc)
  moreover have "edgesValid (g\<lparr>nodes := map clampToFloor (nodes g)\<rparr>)"
    using v by (auto intro: edgesValid_grow [of g])
  ultimately show ?thesis
    by simp
qed

subsection \<open>Recliner\<close>

lemma reclinerPoint_inv:
  "surfaceInv st \<Longrightarrow> surfaceInv (reclinerPoint rnd params densityV spineY spineZ jitterZ j st)"
  by (simp add: surfaceInv_def reclinerPoint_def Let_def split_beta)

lemma reclinerRow_inv:
  assumes "surfaceInv st"
  shows "surfaceInv (reclinerRow rnd params densityU densityV i st)"
proof -
  have "surfaceInv (fst st, fst (snd st), Suc (snd (snd st)))"
    using assms by (simp add: surfaceInv_def)
  then show ?thesis
    unfolding reclinerRow_def Let_def
    by (intro fold_invariant [where P = surfaceInv]) (simp_all add: reclinerPoint_inv)
qed

lemma reclinerConnect_valid:
  assumes "edgesValid g" and "length (nodes g) = length sp"
    and "map fst sp = map int [0..<length sp]"
  shows "edgesValid (reclinerConnect sp connectionDist windowSize g) \<and>
         length (nodes (reclinerConnect sp connectionDist windowSize g)) = length sp"
  unfolding reclinerConnect_def
proof (rule fold_invariant [where P = "\<lambda>g. edgesValid g \<and> length (nodes g) = length sp"])
  show "edgesValid g \<and> length (nodes g) = length sp"
    using assms by simp
next
  fix i h
  assume i: "i \<in> set [0..<length sp]" and h: "edgesValid h \<and> length (nodes h) = length sp"
  let ?body = "\<lambda>j g. let pA = sp ! i; pB = sp ! j; dist = distanceTo (snd pA) (snd pB)
                      in if dist < connectionDist then link g (fst pA) (fst pB) else g"
  show "edgesValid (fold ?body [i + 1..<min (i + windowSize) (length sp)] h) \<and>
        length (nodes (fold ?body [i + 1..<min (i + windowSize) (length sp)] h)) = length sp"
  proof (rule fold_invariant [where P = "\<lambda>g. edgesValid g \<and> length (nodes g) = length sp"])
    show "edgesValid h \<and> length (nodes h) = length sp"
      by (rule h)
  next
    fix j h'
    assume j: "j \<in> set [i + 1..<min (i + windowSize) (length sp)]"
      and h': "edgesValid h' \<and> length (nodes h') = length sp"
    have ij: "i < j" "j < length sp" "i < length sp"
      using i j by auto
    have "fst (sp ! i) = int i" "fst (sp ! j) = int j"
      using ij assms(3) by (metis nth_map nth_upt add_0 length_upt diff_zero)+
    then show "edgesValid (?body j h') \<and> length (nodes (?body j h')) = length sp"
      using ij h' by (simp add: Let_def)
  qed
qed

lemma reclinerLeg_valid:
  assumes "edgesValid (fst s)" and "n \<le> length (nodes (fst s))"
    and "0 \<le> fst p" and "fst p < int n"
  shows "edgesValid (fst (reclinerLeg rnd params p s)) \<and>
         n \<le> length (nodes (fst (reclinerLeg rnd params p s)))"
proof -
  have "edgesValid (snd (addNode (fst s) x 0 z))" for x z
    using assms(1) by (auto intro: edgesValid_grow)
  then show ?thesis
    using assms by (simp add: reclinerLeg_def Let_def split_beta)
qed

lemma generateVoronoiReclinerOriginal_valid:
  "edgesValid (generateVoronoiReclinerOriginal rnd \<lparr>nodes = [], edges = []\<rparr> params)"
proof -
  define s where
    "s = fold (reclinerRow rnd params 30 12) [0..<31] (\<lparr>nodes = [], edges = []\<rparr>, [], 0)"
  define sp where "sp = fst (snd s)"
  have "surfaceInv s"
    unfolding s_def
  proof (rule fold_invariant [where P = surfaceInv])
    show "surfaceInv (\<lparr>nodes = [], edges = []\<rparr>, [], 0)"
      by (simp add: surfaceInv_def)
  next
    fix i and st :: "NetworkData \<times> (int \<times> Vector3) list \<times> nat"
    assume "surfaceInv st"
    then show "surfaceInv (reclinerRow rnd params 30 12 i st)"
      by (rule reclinerRow_inv)
  qed
  then have e: "edges (fst s) = []" and ids: "map fst sp = map int [0..<length (nodes (fst s))]"
    by (simp_all add: surfaceInv_def sp_def)
  have len: "length sp = length (nodes (fst s))"
    using ids by (metis length_map length_upt diff_zero)
  define g where "g = reclinerConnect sp ((width params / real 12) * 1.8) (12 * 3) (fst s)"
  have g: "edgesValid g \<and> length (nodes g) = length sp"
    unfolding g_def
  proof (rule reclinerConnect_valid)
    show "edgesValid (fst s)"
      using e by (simp add: edgesValid_def)
    show "length (nodes (fst s)) = length sp"
      by (rule len [symmetric])
    show "map fst sp = map int [0..<length sp]"
      unfolding len by (rule ids)
  qed
  define r where "r = fold (reclinerLeg rnd params) sp (g, snd (snd s))"
  have "edgesValid (fst r) \<and> length sp \<le> length (nodes (fst r))"
    unfolding r_def
  proof (rule fold_invariant
      [where P = "\<lambda>t. edgesValid (fst t) \<and> length sp \<le> length (nodes (fst t))"])
    show "edgesValid (fst (g, snd (snd s))) \<and> length sp \<le> length (nodes (fst (g, snd (snd s))))"
      using g by simp
  next
    fix p and t :: "NetworkData \<times> nat"
    assume p: "p \<in> set sp" and t: "edgesValid (fst t) \<and> length sp \<le> length (nodes (fst t))"
    have "fst p \<in> set (map int [0..<length sp])"
      using p ids len by (metis image_eqI set_map)
    then have "0 \<le> fst p" "fst p < int (length sp)"
      by auto
    then show "edgesValid (fst (reclinerLeg rnd params p t)) \<and>
        length sp \<le> length (nodes (fst (reclinerLeg rnd params p t)))"
      using t by (intro reclinerLeg_valid) simp_all
  qed
  moreover have "generateVoronoiReclinerOriginal rnd \<lparr>nodes = [], edges = []\<rparr> params = fst r"
    by (simp add: generateVoronoiReclinerOriginal_def Let_def r_def g_def sp_def s_def
        del: upt_Suc)
  ultimately show ?thesis
    by simp
qed

subsection \<open>Voronoi\<close>

lemma voronoiSample_inv: "surfaceInv st \<Longrightarrow> surfaceInv (voronoiSample rnd type params st)"
  by (simp add: surfaceInv_def voronoiSample_def Let_def split_beta)

lemma voronoiLoop_inv:
  "surfaceInv st \<Longrightarrow> surfaceInv (voronoiLoop rnd type params count attempts st)"
proof (induction rnd type params count attempts st rule: voronoiLoop.induct)
  case (1 rnd type params count attempts s)
  show ?case
  proof (cases "int (length (fst (snd s))) < count \<and> attempts < count * 10")
    case True
    then show ?thesis
      using 1 by (subst voronoiLoop.simps) (simp add: voronoiSample_inv)
  next
    case False
    then have "voronoiLoop rnd type params count attempts s = s"
      by (subst voronoiLoop.simps) auto
    then show ?thesis
      using "1.prems" by simp
  qed
qed

lemma voronoiConnect_valid:
  assumes "edgesValid g" and "length (nodes g) = length points"
    and "map fst points = map int [0..<length points]"
  shows "edgesValid (voronoiConnect points threshold g)"
proof -
  have "edgesValid (voronoiConnect points threshold g) \<and>
        length (nodes (voronoiConnect points threshold g)) = length points"
    unfolding voronoiConnect_def
  proof (rule fold_invariant [where P = "\<lambda>g. edgesValid g \<and> length (nodes g) = length points"])
    show "edgesValid g \<and> length (nodes g) = length points"
      using assms by simp
  next
    fix i h
    assume i: "i \<in> set [0..<length points]"
      and h: "edgesValid h \<and> length (nodes h) = length points"
    let ?body = "\<lambda>j g. let d = distanceTo (snd (points ! i)) (snd (points ! j))
                        in if belowThreshold d threshold
                           then link g (fst (points ! i)) (fst (points ! j)) else g"
    show "edgesValid (fold ?body [i + 1..<length points] h) \<and>
          length (nodes (fold ?body [i + 1..<length points] h)) = length points"
    proof (rule fold_invariant
        [where P = "\<lambda>g. edgesValid g \<and> length (nodes g) = length points"])
      show "edgesValid h \<and> length (nodes h) = length points"
        by (rule h)
    next
      fix j h'
      assume j: "j \<in> set [i + 1..<length points]"
        and h': "edgesValid h' \<and> length (nodes h') = length points"
      have ij: "i < j" "j < length points" "i < length points"
        using i j by auto
      have "fst (points ! i) = int i" "fst (points ! j) = int j"
        using ij assms(3) by (metis nth_map nth_upt add_0 length_upt diff_zero)+
      then show "edgesValid (?body j h') \<and> length (nodes (?body j h')) = length points"
        using ij h' by (simp add: Let_def)
    qed
  qed
  then show ?thesis
    by simp
qed

lemma voronoi_scatter_state:
  assumes "s = voronoiLoop rnd type params count 0 (\<lparr>nodes = [], edges = []\<rparr>, [], 0)"
  shows "edges (fst s) = []"
    and "map fst (fst (snd s)) = map int [0..<length (fst (snd s))]"
    and "length (nodes (fst s)) = length (fst (snd s))"
proof -
  have "surfaceInv s"
    unfolding assms by (rule voronoiLoop_inv) (simp add: surfaceInv_def)
  then have e: "edges (fst s) = []"
    and ids: "map fst (fst (snd s)) = map int [0..<length (nodes (fst s))]"
    by (simp_all add: surfaceInv_def)
  have len: "length (fst (snd s)) = length (nodes (fst s))"
    using ids by (metis length_map length_upt diff_zero)
  show "edges (fst s) = []"
    by (rule e)
  show "map fst (fst (snd s)) = map int [0..<length (fst (snd s))]"
    unfolding len by (rule ids)
  show "length (nodes (fst s)) = length (fst (snd s))"
    by (rule len [symmetric])
qed

lemma generateVolumeVoronoi_valid:
  "edgesValid (generateVolumeVoronoi rnd \<lparr>nodes = [], edges = []\<rparr> params type)"
  unfolding generateVolumeVoronoi_def Let_def
  by (rule voronoiConnect_valid)
    (simp_all add: voronoi_scatter_state [OF refl] edgesValid_def)



subsection \<open>Grid scans\<close>

lemma for3_invariant:
  assumes "P s"
    and "\<And>x y z s. x \<in> set xs \<Longrightarrow> y \<in> set ys \<Longrightarrow> z \<in> set zs \<Longrightarrow> P s \<Longrightarrow> P (body x y z s)"
  shows "P (for3 xs ys zs body s)"
  unfolding for3_def
  by (intro fold_invariant [where P = P] assms) 

lemma for3_no_rows: "for3 xs [] zs body s = s"
  unfolding for3_def by (induction xs) simp_all

lemma for3_no_columns: "for3 [] ys zs body s = s"
  by (simp add: for3_def)

lemma update_subset: "set (AList.update k v m) \<subseteq> insert (k, v) (set m)"
  by (induction m) auto

lemma update_distinct_values:
  assumes "distinct (map snd m)" and "v \<notin> snd ` set m"
  shows "distinct (map snd (AList.update k v m))"
  using assms
proof (induction m)
  case Nil
  then show ?case by simp
next
  case (Cons p m)
  have "snd ` set (AList.update k v m) \<subseteq> insert v (snd ` set m)"
    using update_subset [of k v m] by force
  then show ?case
    using Cons by (auto simp: image_iff)
qed

lemma nodeMapInv_add:
  assumes "nodeMapInv s" and "0 \<le> key"
  shows "nodeMapInv (snd (addNode (fst s) x y z),
           AList.update key (fst (addNode (fst s) x y z)) (snd s))"
proof -
  let ?n = "int (length (nodes (fst s)))"
  have old: "\<And>k v. (k, v) \<in> set (snd s) \<Longrightarrow> 0 \<le> k \<and> 0 \<le> v \<and> v < ?n"
    using assms(1) by (auto simp: nodeMapInv_def list_all_iff)
  then have fresh: "?n \<notin> snd ` set (snd s)"
    by force
  have "distinct (map snd (AList.update key ?n (snd s)))"
    using assms(1) fresh by (intro update_distinct_values) (simp_all add: nodeMapInv_def)
  moreover have "list_all (\<lambda>(k, v). 0 \<le> k \<and> 0 \<le> v \<and> v < ?n + 1)
      (AList.update key ?n (snd s))"
    unfolding list_all_iff using update_subset [of key ?n "snd s"] old assms(2) by force
  ultimately show ?thesis
    using assms(1) by (simp add: nodeMapInv_def add.commute)
qed

lemma idx_nonneg:
  "0 \<le> nx \<Longrightarrow> 0 \<le> ny \<Longrightarrow> 0 \<le> x \<Longrightarrow> 0 \<le> y \<Longrightarrow> 0 \<le> z \<Longrightarrow> 0 \<le> idx nx ny x y z"
  by (simp add: idx_def)

lemma gyroidCell_inv:
  assumes "nodeMapInv s" and "0 \<le> nx" "0 \<le> ny" "0 \<le> x" "0 \<le> y" "0 \<le> z"
  shows "nodeMapInv (gyroidCell type params nx ny x y z s)"
  using assms nodeMapInv_add [OF assms(1) idx_nonneg [OF assms(2-6)]]
  by (simp add: gyroidCell_def Let_def split_beta)

lemma triangularCell_inv:
  assumes "nodeMapInv s" and "0 \<le> nx" "0 \<le> ny" "0 \<le> x" "0 \<le> y" "0 \<le> z"
  shows "nodeMapInv (triangularCell type params nx ny x y z s)"
  using assms nodeMapInv_add [OF assms(1) idx_nonneg [OF assms(2-6)]]
  by (simp add: triangularCell_def Let_def split_beta)

subsection \<open>Connection passes\<close>

lemma js_rem_nonneg: "0 \<le> a \<Longrightarrow> 0 < b \<Longrightarrow> js_rem a b = a mod b"
  by (cases "a = 0") (simp_all add: js_rem_def)

text \<open>For a key that is not negative, the decoded coordinates give the key back.\<close>

lemma decode_idx:
  assumes "0 < nx" and "0 < ny" and "0 \<le> g" and "decodeGrid nx ny g = Some (x, y, z)"
  shows "idx nx ny x y z = g"
proof -
  define r where "r = g - (g div (nx * ny)) * nx * ny"
  have r: "r = g mod (nx * ny)"
    by (simp add: r_def minus_div_mult_eq_mod mult.assoc)
  have xyz: "z = g div (nx * ny)" "y = r div nx" "x = g mod nx"
    using assms by (auto simp: decodeGrid_def Let_def js_rem_nonneg r_def split: if_splits)
  have "g mod nx = r mod nx"
    unfolding r by (simp add: mod_mult_eq mod_mod_cancel)
  then have "x + y * nx = r"
    using xyz by simp
  then show ?thesis
    using xyz by (simp add: idx_def r_def)
qed

lemma idx_shift:
  "idx nx ny (x + dx) (y + dy) (z + dz) = idx nx ny x y z + (dx + dy * nx + dz * nx * ny)"
  by (simp add: idx_def algebra_simps)

lemma values_distinct_keys:
  assumes "distinct (map snd m)" and "(k, v) \<in> set m" and "(k', v) \<in> set m"
  shows "k = k'"
  using assms by (induction m) (auto simp: image_iff)

lemma connectNeighbors_valid:
  assumes g: "edgesValid g" "length (nodes g) = n"
    and m: "distinct (map snd m)"
      "\<And>k v. (k, v) \<in> set m \<Longrightarrow> 0 \<le> v \<and> v < int n"
    and e: "(gridId, realIdx) \<in> set m"
    and nb: "\<And>x y z. (x, y, z) \<in> set neighbors \<Longrightarrow> idx nx ny x y z \<noteq> gridId"
  shows "edgesValid (connectNeighbors nx ny m realIdx neighbors g) \<and>
         length (nodes (connectNeighbors nx ny m realIdx neighbors g)) = n"
  unfolding connectNeighbors_def
proof (rule fold_invariant [where P = "\<lambda>g. edgesValid g \<and> length (nodes g) = n"])
  show "edgesValid g \<and> length (nodes g) = n"
    using g by simp
next
  fix c h
  assume c: "c \<in> set neighbors" and h: "edgesValid h \<and> length (nodes h) = n"
  obtain x y z where xyz: "c = (x, y, z)"
    by (cases c) auto
  let ?nid = "idx nx ny x y z"
  have "edgesValid (case map_of m ?nid of Some other \<Rightarrow> link h realIdx other | None \<Rightarrow> h) \<and>
        length (nodes (case map_of m ?nid of Some other \<Rightarrow> link h realIdx other | None \<Rightarrow> h)) = n"
  proof (cases "map_of m ?nid")
    case None
    then show ?thesis using h by simp
  next
    case (Some other)
    then have o: "(?nid, other) \<in> set m"
      by (rule map_of_SomeD)
    have "other \<noteq> realIdx"
      using values_distinct_keys [OF m(1) o] e nb [of x y z] c xyz by auto
    then show ?thesis
      using Some h m(2) [OF o] m(2) [OF e] by auto
  qed
  then show "edgesValid ((\<lambda>(nx_coord, ny_coord, nz_coord) g.
              let nid = idx nx ny nx_coord ny_coord nz_coord
              in case map_of m nid of Some other \<Rightarrow> link g realIdx other | None \<Rightarrow> g) c h) \<and>
        length (nodes ((\<lambda>(nx_coord, ny_coord, nz_coord) g.
              let nid = idx nx ny nx_coord ny_coord nz_coord
              in case map_of m nid of Some other \<Rightarrow> link g realIdx other | None \<Rightarrow> g) c h)) = n"
    by (simp add: xyz Let_def)
qed

lemma grid_connect_valid:
  assumes inv: "nodeMapInv s" and pos: "0 \<le> nx" "0 \<le> ny"
    and step: "\<And>entry g. connect entry g =
        (case decodeGrid nx ny (fst entry) of
           None \<Rightarrow> g
         | Some (x, y, z) \<Rightarrow>
             connectNeighbors nx ny (snd s) (snd entry)
               (map (\<lambda>(dx, dy, dz). (x + dx, y + dy, z + dz)) offsets) g)"
    and off: "\<And>dx dy dz. (dx, dy, dz) \<in> set offsets \<Longrightarrow>
        0 \<le> dx \<and> 0 \<le> dy \<and> 0 \<le> dz \<and> 0 < dx + dy + dz"
  shows "edgesValid (fold connect (snd s) (fst s))"
proof -
  let ?n = "length (nodes (fst s))"
  have vals: "\<And>k v. (k, v) \<in> set (snd s) \<Longrightarrow> 0 \<le> k \<and> 0 \<le> v \<and> v < int ?n"
    using inv by (auto simp: nodeMapInv_def list_all_iff)
  have d: "distinct (map snd (snd s))"
    using inv by (simp add: nodeMapInv_def)
  have "edgesValid (fold connect (snd s) (fst s)) \<and>
        length (nodes (fold connect (snd s) (fst s))) = ?n"
  proof (rule fold_invariant [where P = "\<lambda>g. edgesValid g \<and> length (nodes g) = ?n"])
    show "edgesValid (fst s) \<and> length (nodes (fst s)) = ?n"
      using inv by (simp add: nodeMapInv_def edgesValid_def)
  next
    fix entry h
    assume entry: "entry \<in> set (snd s)" and h: "edgesValid h \<and> length (nodes h) = ?n"
    obtain gridId realIdx where e: "entry = (gridId, realIdx)"
      by (cases entry) auto
    show "edgesValid (connect entry h) \<and> length (nodes (connect entry h)) = ?n"
    proof (cases "decodeGrid nx ny gridId")
      case None
      then show ?thesis
        using h by (simp add: step e)
    next
      case (Some c)
      obtain x y z where c: "c = (x, y, z)"
        by (cases c) auto
      have "nx * ny \<noteq> 0"
        using Some by (auto simp: decodeGrid_def split: if_splits)
      then have p: "0 < nx" "0 < ny"
        using pos by auto
      have g0: "0 \<le> gridId"
        using vals entry e by auto
      have key: "idx nx ny x y z = gridId"
        using decode_idx [OF p g0] Some c by simp
      have far: "idx nx ny x' y' z' \<noteq> gridId"
        if nbr: "(x', y', z') \<in> set (map (\<lambda>(dx, dy, dz). (x + dx, y + dy, z + dz)) offsets)"
        for x' y' z'
      proof -
        obtain d where d: "d \<in> set offsets"
          and dd: "(x', y', z') = (\<lambda>(dx, dy, dz). (x + dx, y + dy, z + dz)) d"
          using nbr by auto
        obtain dx dy dz where o3: "d = (dx, dy, dz)"
          by (cases d) auto
        have o: "(dx, dy, dz) \<in> set offsets"
          and eq: "x' = x + dx" "y' = y + dy" "z' = z + dz"
          using d dd o3 by simp_all
        have s0: "0 \<le> dx" "0 \<le> dy" "0 \<le> dz" "0 < dx + dy + dz"
          using off [OF o] by simp_all
        have one: "1 \<le> nx" "1 \<le> nx * ny"
          using p mult_pos_pos [OF p] by linarith+
        have "dy * 1 \<le> dy * nx"
          using s0 one by (intro mult_left_mono) simp_all
        moreover have "dz * 1 \<le> dz * (nx * ny)"
          using s0 one by (intro mult_left_mono) simp_all
        ultimately have "0 < dx + dy * nx + dz * nx * ny"
          using s0 by (simp add: mult.assoc)
        then show ?thesis
          unfolding eq idx_shift using key by simp
      qed
      have "edgesValid (connectNeighbors nx ny (snd s) realIdx
              (map (\<lambda>(dx, dy, dz). (x + dx, y + dy, z + dz)) offsets) h) \<and>
            length (nodes (connectNeighbors nx ny (snd s) realIdx
              (map (\<lambda>(dx, dy, dz). (x + dx, y + dy, z + dz)) offsets) h)) = ?n"
      proof (rule connectNeighbors_valid [where gridId = gridId])
        show "edgesValid h" "length (nodes h) = ?n"
          using h by simp_all
        show "distinct (map snd (snd s))"
          by (rule d)
        show "\<And>k v. (k, v) \<in> set (snd s) \<Longrightarrow> 0 \<le> v \<and> v < int ?n"
          using vals by blast
        show "(gridId, realIdx) \<in> set (snd s)"
          using entry e by simp
        show "\<And>x' y' z'.
            (x', y', z') \<in> set (map (\<lambda>(dx, dy, dz). (x + dx, y + dy, z + dz)) offsets) \<Longrightarrow>
            idx nx ny x' y' z' \<noteq> gridId"
          by (rule far)
      qed
      then show ?thesis
        using Some c by (simp add: step e)
    qed
  qed
  then show ?thesis
    by simp
qed

lemma generateVolumeGyroid_valid:
  "edgesValid (generateVolumeGyroid \<lparr>nodes = [], edges = []\<rparr> params type)"
proof -
  define nx where "nx = \<lceil>width params / 0.08\<rceil> + 2"
  define ny where "ny = \<lceil>height params / 0.08\<rceil> + 2"
  define nz where "nz = \<lceil>depth params / 0.08\<rceil> + 2"
  define s where "s = for3 [0..nx - 1] [0..ny - 1] [0..nz - 1] (gyroidCell type params nx ny)
      (\<lparr>nodes = [], edges = []\<rparr>, [])"
  have gen: "generateVolumeGyroid \<lparr>nodes = [], edges = []\<rparr> params type =
      fold (gyroidConnect nx ny (snd s)) (snd s) (fst s)"
    by (simp add: generateVolumeGyroid_def Let_def s_def nx_def ny_def nz_def)
  show ?thesis
  proof (cases "1 \<le> nx \<and> 1 \<le> ny")
    case True
    have inv: "nodeMapInv s"
      unfolding s_def
    proof (rule for3_invariant [where P = nodeMapInv])
      show "nodeMapInv (\<lparr>nodes = [], edges = []\<rparr>, [])"
        by (simp add: nodeMapInv_def)
    next
      fix x y z and t :: "NetworkData \<times> nodeMap"
      assume "x \<in> set [0..nx - 1]" "y \<in> set [0..ny - 1]" "z \<in> set [0..nz - 1]" "nodeMapInv t"
      then show "nodeMapInv (gyroidCell type params nx ny x y z t)"
        using True by (intro gyroidCell_inv) simp_all
    qed
    show ?thesis
      unfolding gen
    proof (rule grid_connect_valid [where nx = nx and ny = ny
          and offsets = "[(1, 0, 0), (0, 1, 0), (0, 0, 1)]"])
      show "nodeMapInv s" by (rule inv)
      show "0 \<le> nx" "0 \<le> ny" using True by simp_all
      show "\<And>entry g. gyroidConnect nx ny (snd s) entry g =
          (case decodeGrid nx ny (fst entry) of
             None \<Rightarrow> g
           | Some (x, y, z) \<Rightarrow>
               connectNeighbors nx ny (snd s) (snd entry)
                 (map (\<lambda>(dx, dy, dz). (x + dx, y + dy, z + dz)) [(1, 0, 0), (0, 1, 0), (0, 0, 1)]) g)"
        by (simp add: gyroidConnect_def Let_def split: option.splits)
      show "\<And>dx dy dz :: int. (dx, dy, dz) \<in> set [(1, 0, 0), (0, 1, 0), (0, 0, 1)] \<Longrightarrow>
          0 \<le> dx \<and> 0 \<le> dy \<and> 0 \<le> dz \<and> 0 < dx + dy + dz"
        by auto
    qed
  next
    case False
    then have "[0..nx - 1] = [] \<or> [0..ny - 1] = []"
      by auto
    then have "s = (\<lparr>nodes = [], edges = []\<rparr>, [])"
      unfolding s_def by (auto simp: for3_no_rows for3_no_columns)
    then show ?thesis
      unfolding gen by simp
  qed
qed

lemma generateVolumeTriangular_valid:
  "edgesValid (generateVolumeTriangular \<lparr>nodes = [], edges = []\<rparr> params type)"
proof -
  define nx where "nx = \<lceil>width params / 0.15\<rceil>"
  define ny where "ny = \<lceil>height params / 0.15\<rceil>"
  define nz where "nz = \<lceil>depth params / 0.15\<rceil>"
  define s where "s = for3 [0..nx] [0..ny] [0..nz] (triangularCell type params nx ny)
      (\<lparr>nodes = [], edges = []\<rparr>, [])"
  have gen: "generateVolumeTriangular \<lparr>nodes = [], edges = []\<rparr> params type =
      fold (triangularConnect nx ny (snd s)) (snd s) (fst s)"
    by (simp add: generateVolumeTriangular_def Let_def s_def nx_def ny_def nz_def)
  show ?thesis
  proof (cases "0 \<le> nx \<and> 0 \<le> ny")
    case True
    have inv: "nodeMapInv s"
      unfolding s_def
    proof (rule for3_invariant [where P = nodeMapInv])
      show "nodeMapInv (\<lparr>nodes = [], edges = []\<rparr>, [])"
        by (simp add: nodeMapInv_def)
    next
      fix x y z and t :: "NetworkData \<times> nodeMap"
      assume "x \<in> set [0..nx]" "y \<in> set [0..ny]" "z \<in> set [0..nz]" "nodeMapInv t"
      then show "nodeMapInv (triangularCell type params nx ny x y z t)"
        using True by (intro triangularCell_inv) simp_all
    qed
    show ?thesis
      unfolding gen
    proof (rule grid_connect_valid [where nx = nx and ny = ny and offsets = neighborOffsets])
      show "nodeMapInv s" by (rule inv)
      show "0 \<le> nx" "0 \<le> ny" using True by simp_all
      show "\<And>entry g. triangularConnect nx ny (snd s) entry g =
          (case decodeGrid nx ny (fst entry) of
             None \<Rightarrow> g
           | Some (x, y, z) \<Rightarrow>
               connectNeighbors nx ny (snd s) (snd entry)
                 (map (\<lambda>(dx, dy, dz). (x + dx, y + dy, z + dz)) neighborOffsets) g)"
        by (simp add: triangularConnect_def Let_def split: option.splits)
      show "\<And>dx dy dz. (dx, dy, dz) \<in> set neighborOffsets \<Longrightarrow>
          0 \<le> dx \<and> 0 \<le> dy \<and> 0 \<le> dz \<and> 0 < dx + dy + dz"
        by (auto simp: neighborOffsets_def)
    qed
  next
    case False
    then have "[0..nx] = [] \<or> [0..ny] = []"
      by auto
    then have "s = (\<lparr>nodes = [], edges = []\<rparr>, [])"
      unfolding s_def by (auto simp: for3_no_rows for3_no_columns)
    then show ?thesis
      unfolding gen by simp
  qed
qed

subsection \<open>The generator\<close>

lemma generateFurniture_valid: "edgesValid (generateFurniture rnd type params)"
proof (cases "pattern params")
  case Linear
  then show ?thesis
    by (cases type)
      (simp_all add: generateFurniture_def Let_def generateLinearChair_valid
        generateLinearTable_valid generateLinearStool_valid linearBench_valid linearShelf_valid
        linearVase_valid generateVoronoiReclinerOriginal_valid linearLamp_valid
        linearMobius_valid)
next
  case Voronoi
  then show ?thesis
    by (simp add: generateFurniture_def Let_def generateVolumeVoronoi_valid)
next
  case Gyroid
  then show ?thesis
    by (simp add: generateFurniture_def Let_def generateVolumeGyroid_valid)
next
  case Triangular
  then show ?thesis
    by (simp add: generateFurniture_def Let_def generateVolumeTriangular_valid)
qed

text \<open>
  Claim C1. For every archetype, pattern family, parameters and outcome of the random
  sampling, both ends of every edge of the returned network are positions in its
  \<open>nodes\<close>: not negative and below \<open>nodes.length\<close>. This covers the Bench and Shelf
  builders, which compute the identifiers of the previous frame as \<open>nodes.length\<close>
  minus a constant.
\<close>

theorem edges_within_nodes:
  assumes "(a, b) \<in> set (edges (generateFurniture rnd type params))"
  shows "0 \<le> a \<and> a < int (length (nodes (generateFurniture rnd type params))) \<and>
         0 \<le> b \<and> b < int (length (nodes (generateFurniture rnd type params)))"
  using assms generateFurniture_valid [of rnd type params]
  by (auto simp: edgesValid_def list_all_iff)

theorem edges_within_nodes_witness:
  "(2, 6) \<in> set (edges (generateFurniture (\<lambda>k. 0) Bench
      \<lparr>width = 0.6, height = 0.9, depth = 0.6, seatHeight = 0.45, pattern = Linear\<rparr>)) \<and>
   (6 :: int) < int (length (nodes (generateFurniture (\<lambda>k. 0) Bench
      \<lparr>width = 0.6, height = 0.9, depth = 0.6, seatHeight = 0.45, pattern = Linear\<rparr>)))"
proof -
  let ?g = "generateFurniture (\<lambda>k. 0) Bench
      \<lparr>width = 0.6, height = 0.9, depth = 0.6, seatHeight = 0.45, pattern = Linear\<rparr>"
  have e: "(2, 6) \<in> set (edges ?g)"
    by (simp add: generateFurniture_def Let_def linearBench_edges)
  show ?thesis
    using e edges_within_nodes [OF e] by simp
qed

text \<open>
  Claim C10. No edge of a returned network is a self-loop, for every archetype,
  pattern family, parameters and outcome of the random sampling.
\<close>

theorem no_self_loops:
  assumes "(a, b) \<in> set (edges (generateFurniture rnd type params))"
  shows "a \<noteq> b"
  using assms generateFurniture_valid [of rnd type params]
  by (auto simp: edgesValid_def list_all_iff)

theorem no_self_loops_witness:
  "(0, 4) \<in> set (edges (generateFurniture (\<lambda>k. 0) Shelf
      \<lparr>width = 0.6, height = 0.9, depth = 0.6, seatHeight = 0.45, pattern = Linear\<rparr>)) \<and>
   (0 :: int) \<noteq> 4"
proof -
  let ?g = "generateFurniture (\<lambda>k. 0) Shelf
      \<lparr>width = 0.6, height = 0.9, depth = 0.6, seatHeight = 0.45, pattern = Linear\<rparr>"
  have e: "(0, 4) \<in> set (edges ?g)"
    by (simp add: generateFurniture_def Let_def linearShelf_edges)
  show ?thesis
    using e no_self_loops [OF e] by simp
qed

section \<open>The node count of the linear stool\<close>

text \<open>
  Claim C3, as stated, fails: the stool of the claim does not have 8 nodes.
\<close>

theorem stool_not_8_nodes:
  "length (nodes (generateFurniture (\<lambda>k. 0) Stool
     \<lparr>width = 0.4, height = 0.45, depth = 0.4, seatHeight = 0.2, pattern = Linear\<rparr>)) \<noteq> 8"
  by (simp add: generateFurniture_def Let_def generateLinearStool_length)

text \<open>
  Claim C3, amended. The linear stool of the claim has exactly 16 nodes: for each of
  the 4 steps, the first loop adds a bottom and a top node (8 nodes), and the second
  loop adds the two ends of a rest-ring strut (8 more).
\<close>

theorem stool_16_nodes:
  "length (nodes (generateFurniture rnd Stool
     \<lparr>width = 0.4, height = 0.45, depth = 0.4, seatHeight = 0.2, pattern = Linear\<rparr>)) = 16"
  by (simp add: generateFurniture_def Let_def generateLinearStool_length)

section \<open>The node count of the Voronoi generator\<close>















section \<open>Determinism of the grid generators\<close>

text \<open>
  Claim C6. With the pattern Gyroid or Triangular the result does not depend on the
  random source: two runs on the same archetype and parameters return the same nodes
  and the same edges, whatever \<open>Math.random\<close> returns in either run.
\<close>

theorem grid_patterns_deterministic:
  assumes "pattern params = Gyroid \<or> pattern params = Triangular"
  shows "generateFurniture rnd type params = generateFurniture rnd' type params"
  using assms by (auto simp: generateFurniture_def Let_def)

theorem grid_patterns_deterministic_witness:
  "pattern \<lparr>width = 0.6, height = 0.9, depth = 0.6, seatHeight = 0.45, pattern = Gyroid\<rparr>
     = Gyroid \<and>
   generateFurniture (\<lambda>k. 0) Stool
     \<lparr>width = 0.6, height = 0.9, depth = 0.6, seatHeight = 0.45, pattern = Gyroid\<rparr> =
   generateFurniture (\<lambda>k. 1 / 2) Stool
     \<lparr>width = 0.6, height = 0.9, depth = 0.6, seatHeight = 0.45, pattern = Gyroid\<rparr>"
  using grid_patterns_deterministic [of
      "\<lparr>width = 0.6, height = 0.9, depth = 0.6, seatHeight = 0.45, pattern = Gyroid\<rparr>"
      "\<lambda>k. 0" Stool "\<lambda>k. 1 / 2"]
  by simp

section \<open>The gyroid generator links across the boundary of the grid\<close>

subsection \<open>Bounds of the sine\<close>

text \<open>
  The sine differs from its Taylor polynomial of degree 11 by at most \<open>|x| ^ 13 / 13!\<close>.
\<close>

lemma sum_lessThan_13:
  fixes f :: "nat \<Rightarrow> real"
  shows "(\<Sum>m<13. f m) =
     f 0 + f 1 + f 2 + f 3 + f 4 + f 5 + f 6 + f 7 + f 8 + f 9 + f 10 + f 11 + f 12"
proof -
  have "(\<Sum>m<13. f m) = (\<Sum>m\<leftarrow>[0..<13]. f m)"
    by (simp add: sum_list_sum_nth atLeast0LessThan)
  also have "[0..<13] = [0, 1, 2, 3, 4, 5, 6, 7, 8, 9, 10, 11, 12]"
    by (simp add: upt_rec)
  finally show ?thesis
    by simp
qed

lemma sin_coeff_values:
  "sin_coeff 0 = 0" "sin_coeff 1 = 1" "sin_coeff 2 = 0" "sin_coeff 3 = - 1 / 6"
  "sin_coeff 4 = 0" "sin_coeff 5 = 1 / 120" "sin_coeff 6 = 0" "sin_coeff 7 = - 1 / 5040"
  "sin_coeff 8 = 0" "sin_coeff 9 = 1 / 362880" "sin_coeff 10 = 0"
  "sin_coeff 11 = - 1 / 39916800" "sin_coeff 12 = 0"
  by (simp_all add: sin_coeff_def fact_numeral)



lemma sin_taylor_sum:
  fixes x :: real
  shows "(\<Sum>m<13. sin_coeff m * x ^ m) =
      x - x ^ 3 / 6 + x ^ 5 / 120 - x ^ 7 / 5040 + x ^ 9 / 362880 - x ^ 11 / 39916800"
  unfolding sum_lessThan_13 sin_coeff_values by simp

lemma fact_13: "fact 13 = (6227020800 :: real)"
  by (simp add: fact_numeral)


lemma sin_poly_bound:
  fixes x :: real
  shows "\<bar>sin x - (x - x ^ 3 / 6 + x ^ 5 / 120 - x ^ 7 / 5040 + x ^ 9 / 362880
            - x ^ 11 / 39916800)\<bar> \<le> \<bar>x\<bar> ^ 13 / 6227020800"
proof -
  have "\<bar>sin x - (\<Sum>m<13. sin_coeff m * x ^ m)\<bar> \<le> inverse (fact 13) * \<bar>x\<bar> ^ 13"
    by (rule Maclaurin_sin_bound)
  moreover have "inverse (fact 13) * \<bar>x\<bar> ^ 13 = \<bar>x\<bar> ^ 13 / 6227020800"
    unfolding fact_13 by (simp only: divide_inverse mult.commute)
  ultimately show ?thesis
    unfolding sin_taylor_sum by (rule ord_le_eq_trans)
qed

lemma sin_interval:
  fixes x :: real
  assumes "lo \<le> (x - x ^ 3 / 6 + x ^ 5 / 120 - x ^ 7 / 5040 + x ^ 9 / 362880
            - x ^ 11 / 39916800) - \<bar>x\<bar> ^ 13 / 6227020800"
    and "(x - x ^ 3 / 6 + x ^ 5 / 120 - x ^ 7 / 5040 + x ^ 9 / 362880
            - x ^ 11 / 39916800) + \<bar>x\<bar> ^ 13 / 6227020800 \<le> hi"
  shows "lo \<le> sin x \<and> sin x \<le> hi"
  using sin_poly_bound [of x] assms by (simp only: abs_le_iff) linarith

lemma sin_values:
  "0.40 \<le> sin (2.72 :: real) \<and> sin (2.72 :: real) \<le> 0.41"
  "0.25 \<le> sin (2.88 :: real) \<and> sin (2.88 :: real) \<le> 0.26"
  "0.54 \<le> sin (2.56 :: real) \<and> sin (2.56 :: real) \<le> 0.55"
  "0.67 \<le> sin (2.4 :: real) \<and> sin (2.4 :: real) \<le> 0.68"
  "- 0.52 \<le> sin (3.68 :: real) \<and> sin (3.68 :: real) \<le> - 0.51"
  "0.71 \<le> sin (0.8 :: real) \<and> sin (0.8 :: real) \<le> 0.72"
  "0.46 \<le> sin (0.48 :: real) \<and> sin (0.48 :: real) \<le> 0.47"
  "- 0.06 \<le> sin (3.2 :: real) \<and> sin (3.2 :: real) \<le> - 0.05"
  by (rule sin_interval; simp add: power_divide)+

text \<open>The gyroid field as a sum of sines.\<close>

lemma gyroidValue_sines:
  "gyroidValue wx wy wz =
     (sin (wx * 8 + wy * 8) + sin (wx * 8 - wy * 8) + sin (wy * 8 + wz * 8) +
      sin (wy * 8 - wz * 8) + sin (wz * 8 + wx * 8) + sin (wz * 8 - wx * 8)) / 2"
  unfolding gyroidValue_def Let_def sin_times_cos by (simp add: add_divide_distrib)

lemma gyroidValue_A: "\<bar>gyroidValue 0.34 0 0.02\<bar> < 0.5"
proof -
  have "gyroidValue 0.34 0 0.02 = (2 * sin 2.72 + sin 2.88 - sin 2.56) / 2"
    by (simp add: gyroidValue_sines)
  then show ?thesis
    using sin_values(1,2,3) by simp
qed

lemma gyroidValue_B: "\<bar>gyroidValue (- 0.38) 0.08 0.02\<bar> < 0.5"
proof -
  have "gyroidValue (- 0.38) 0.08 0.02 =
      (- sin 2.4 - sin 3.68 + sin 0.8 + sin 0.48 - sin 2.88 + sin 3.2) / 2"
    by (simp add: gyroidValue_sines)
  then show ?thesis
    using sin_values(2,4,5,6,7,8) by simp
qed

text \<open>
  With the dimensions the interface starts from, the stool keeps the grid point
  \<open>(9, 1, 5)\<close> on the last plane of the grid in \<open>x\<close>, and the grid point \<open>(0, 2, 5)\<close>
  on the first.
\<close>

lemma stool_keeps_A:
  assumes "width params = 0.6" "height params = 0.9" "depth params = 0.6"
  shows "gyroidPoint params 9 1 5 = Vector3 0.34 0 0.02"
    and "gyroidKeep Stool params 9 1 5"
proof -
  show pt: "gyroidPoint params 9 1 5 = Vector3 0.34 0 0.02"
    by (simp add: gyroidPoint_def Let_def assms)
  have "isInsideFurniture Stool 0.34 0 0.02 params"
    by (simp add: isInsideFurniture_def Let_def lerp_def assms)
  then show "gyroidKeep Stool params 9 1 5"
    using gyroidValue_A by (simp add: gyroidKeep_def Let_def pt)
qed

lemma stool_keeps_B:
  assumes "width params = 0.6" "height params = 0.9" "depth params = 0.6"
  shows "gyroidPoint params 0 2 5 = Vector3 (- 0.38) 0.08 0.02"
    and "gyroidKeep Stool params 0 2 5"
proof -
  show pt: "gyroidPoint params 0 2 5 = Vector3 (- 0.38) 0.08 0.02"
    by (simp add: gyroidPoint_def Let_def assms)
  have "isInsideFurniture Stool (- 0.38) 0.08 0.02 params"
    by (simp add: isInsideFurniture_def Let_def lerp_def assms)
  then show "gyroidKeep Stool params 0 2 5"
    using gyroidValue_B by (simp add: gyroidKeep_def Let_def pt)
qed

subsection \<open>What the gyroid scan leaves in the map\<close>

text \<open>Inside the grid, decoding inverts \<open>idx\<close>.\<close>

lemma decode_of_idx:
  assumes "0 \<le> x" "x < nx" "0 \<le> y" "y < ny" "0 \<le> z"
  shows "decodeGrid nx ny (idx nx ny x y z) = Some (x, y, z)"
proof -
  have nx: "0 < nx" and ny: "0 < ny"
    using assms by linarith+
  define w where "w = x + y * nx"
  have "y * nx \<le> (ny - 1) * nx"
    using assms nx by (intro mult_right_mono) simp_all
  then have w: "0 \<le> w" "w < nx * ny"
    using assms nx by (simp_all add: w_def algebra_simps)
  have g: "idx nx ny x y z = w + z * (nx * ny)"
    by (simp add: idx_def w_def algebra_simps)
  have g0: "0 \<le> idx nx ny x y z"
    unfolding g using w assms nx ny by simp
  have pos: "nx * ny \<noteq> 0" "nx \<noteq> 0"
    using nx ny by simp_all
  have z: "(w + z * (nx * ny)) div (nx * ny) = z"
    using w div_mult_self1 [OF pos(1), of w z] by simp
  have y: "w div nx = y"
    using assms div_mult_self1 [OF pos(2), of x y] by (simp add: w_def)
  have "w + z * (nx * ny) = x + (y + z * ny) * nx"
    by (simp add: w_def algebra_simps)
  then have x: "(w + z * (nx * ny)) mod nx = x"
    using assms by simp
  have "js_rem (w + z * (nx * ny)) nx = x"
    using js_rem_nonneg [of "w + z * (nx * ny)" nx] g0 nx x unfolding g by simp
  then show ?thesis
    using nx ny z y unfolding g by (simp add: decodeGrid_def Let_def)
qed

lemma gyroidCell_keys:
  "fst ` set (snd s) \<subseteq> fst ` set (snd (gyroidCell type params nx ny x y z s))"
  by (auto simp: gyroidCell_def Let_def split_beta dom_update)

lemma gyroidCell_adds_key:
  "gyroidKeep type params x y z \<Longrightarrow>
   idx nx ny x y z \<in> fst ` set (snd (gyroidCell type params nx ny x y z s))"
  by (simp add: gyroidCell_def Let_def split_beta dom_update)

lemma gyroidCell_entries:
  assumes "gyroidEntries params nx ny s" and "0 \<le> x" "x < nx" "0 \<le> y" "y < ny" "0 \<le> z"
  shows "gyroidEntries params nx ny (gyroidCell type params nx ny x y z s)"
proof (cases "gyroidKeep type params x y z")
  case False
  then show ?thesis
    using assms(1) by (simp add: gyroidCell_def)
next
  case True
  let ?w = "gyroidPoint params x y z"
  let ?n = "length (nodes (fst s))"
  let ?m = "AList.update (idx nx ny x y z) (int ?n) (snd s)"
  let ?ns = "nodes (fst s) @ [Vector3 (vx ?w) (vy ?w) (vz ?w)]"
  have cell: "gyroidCell type params nx ny x y z s = (snd (addNode (fst s) (vx ?w) (vy ?w) (vz ?w)), ?m)"
    using True by (simp add: gyroidCell_def Let_def split_beta)
  have "0 \<le> i \<and> nat i < length ?ns \<and>
        (case decodeGrid nx ny k of None \<Rightarrow> False
         | Some (x, y, z) \<Rightarrow> ?ns ! nat i = gyroidPoint params x y z)"
    if e: "(k, i) \<in> set ?m" for k i
  proof (cases "(k, i) = (idx nx ny x y z, int ?n)")
    case True
    then show ?thesis
      using decode_of_idx [OF assms(2-6)] by simp
  next
    case False
    then have "(k, i) \<in> set (snd s)"
      using e update_subset [of "idx nx ny x y z" "int ?n" "snd s"] by auto
    then have "0 \<le> i \<and> nat i < ?n \<and>
        (case decodeGrid nx ny k of None \<Rightarrow> False
         | Some (x, y, z) \<Rightarrow> nodes (fst s) ! nat i = gyroidPoint params x y z)"
      using assms(1) by (auto simp: gyroidEntries_def list_all_iff)
    then show ?thesis
      by (auto simp: nth_append split: option.splits)
  qed
  note ent = this
  show ?thesis
    unfolding gyroidEntries_def list_all_iff
  proof (intro ballI)
    fix e
    assume e: "e \<in> set (snd (gyroidCell type params nx ny x y z s))"
    obtain k i where ki: "e = (k, i)"
      by (cases e) auto
    have "(k, i) \<in> set ?m"
      using e by (simp add: cell ki)
    from ent [OF this]
    show "case e of (k, i) \<Rightarrow> 0 \<le> i \<and>
        nat i < length (nodes (fst (gyroidCell type params nx ny x y z s))) \<and>
        (case decodeGrid nx ny k of None \<Rightarrow> False
         | Some (xa, ya, za) \<Rightarrow>
             nodes (fst (gyroidCell type params nx ny x y z s)) ! nat i =
             gyroidPoint params xa ya za)"
      by (auto simp: cell ki split: option.splits)
  qed
qed

lemma for3_keys_grow:
  assumes "\<And>x y z s. K s \<subseteq> K (body x y z s)"
  shows "K s \<subseteq> K (for3 xs ys zs body s)"
proof (rule for3_invariant [where P = "\<lambda>t. K s \<subseteq> K t"])
  show "K s \<subseteq> K s"
    by simp
next
  fix x y z t
  assume "K s \<subseteq> K t"
  then show "K s \<subseteq> K (body x y z t)"
    using assms [of t x y z] by (rule order_trans)
qed


lemma fold_grows:
  assumes "\<And>x s. K s \<subseteq> K (f x s)"
  shows "K s \<subseteq> K (fold f xs s)"
proof (rule fold_invariant [where P = "\<lambda>t. K s \<subseteq> K t"])
  show "K s \<subseteq> K s"
    by simp
next
  fix x t
  assume "K s \<subseteq> K t"
  then show "K s \<subseteq> K (f x t)"
    using assms [of t x] by (rule order_trans)
qed

text \<open>What one round of a loop puts into a growing set is still there at the end.\<close>

lemma fold_covers:
  assumes grow: "\<And>x s. K s \<subseteq> K (f x s)"
    and mem: "x0 \<in> set xs"
    and hit: "\<And>s. key \<in> K (f x0 s)"
  shows "key \<in> K (fold f xs s)"
proof -
  obtain as bs where xs: "xs = as @ x0 # bs"
    using mem by (auto dest: split_list)
  have "key \<in> K (f x0 (fold f as s))"
    by (rule hit)
  then have "key \<in> K (fold f bs (f x0 (fold f as s)))"
    using fold_grows [of K f "f x0 (fold f as s)" bs, OF grow] by blast
  then show ?thesis
    by (simp add: xs)
qed

lemma for3_covers:
  assumes grow: "\<And>x y z s. K s \<subseteq> K (body x y z s)"
    and mem: "x0 \<in> set xs" "y0 \<in> set ys" "z0 \<in> set zs"
    and hit: "\<And>s. key \<in> K (body x0 y0 z0 s)"
  shows "key \<in> K (for3 xs ys zs body s)"
  unfolding for3_def
proof (rule fold_covers [where K = K and ?x0.0 = x0])
  show "K t \<subseteq> K (fold (\<lambda>y. fold (\<lambda>z. body x y z) zs) ys t)" for x t
    by (intro fold_grows grow)
  show "x0 \<in> set xs"
    by (rule mem)
  show "key \<in> K (fold (\<lambda>y. fold (\<lambda>z. body x0 y z) zs) ys t)" for t
  proof (rule fold_covers [where K = K and ?x0.0 = y0])
    show "K u \<subseteq> K (fold (\<lambda>z. body x0 y z) zs u)" for y u
      by (intro fold_grows grow)
    show "y0 \<in> set ys"
      by (rule mem)
    show "key \<in> K (fold (\<lambda>z. body x0 y0 z) zs u)" for u
      by (rule fold_covers [where K = K and ?x0.0 = z0]) (rule grow mem hit)+
  qed
qed

subsection \<open>What the gyroid connection pass adds\<close>

lemma connectNeighbors_grows:
  "nodes (connectNeighbors nx ny m a nbs g) = nodes g \<and>
   set (edges g) \<subseteq> set (edges (connectNeighbors nx ny m a nbs g))"
  unfolding connectNeighbors_def
  by (rule fold_invariant [where P = "\<lambda>h. nodes h = nodes g \<and> set (edges g) \<subseteq> set (edges h)"])
    (auto simp: Let_def split: option.splits)

lemma connectNeighbors_Cons:
  "connectNeighbors nx ny m a ((x, y, z) # nbs) g =
     connectNeighbors nx ny m a nbs
       (case map_of m (idx nx ny x y z) of Some other \<Rightarrow> link g a other | None \<Rightarrow> g)"
  by (simp add: connectNeighbors_def Let_def)

lemma gyroidConnect_grows:
  "nodes (gyroidConnect nx ny m e g) = nodes g \<and>
   set (edges g) \<subseteq> set (edges (gyroidConnect nx ny m e g))"
  using connectNeighbors_grows
  by (auto simp: gyroidConnect_def Let_def split: option.splits prod.splits)

lemma gyroidConnect_fold_grows:
  "nodes (fold (gyroidConnect nx ny m) es g) = nodes g \<and>
   set (edges g) \<subseteq> set (edges (fold (gyroidConnect nx ny m) es g))"
proof (rule fold_invariant [where P = "\<lambda>h. nodes h = nodes g \<and> set (edges g) \<subseteq> set (edges h)"])
  show "nodes g = nodes g \<and> set (edges g) \<subseteq> set (edges g)"
    by simp
next
  fix e and h :: NetworkData
  assume "nodes h = nodes g \<and> set (edges g) \<subseteq> set (edges h)"
  then show "nodes (gyroidConnect nx ny m e h) = nodes g \<and>
      set (edges g) \<subseteq> set (edges (gyroidConnect nx ny m e h))"
    using gyroidConnect_grows [of nx ny m e h] by auto
qed

text \<open>
  The entry of a kept grid point links its node to whatever node the map holds under
  the key of \<open>(x + 1, y, z)\<close>.
\<close>

lemma gyroidConnect_links_next:
  assumes "decodeGrid nx ny k = Some (x, y, z)"
    and "map_of m (idx nx ny (x + 1) y z) = Some b"
  shows "(a, b) \<in> set (edges (gyroidConnect nx ny m (k, a) g))"
proof -
  have "(a, b) \<in> set (edges (link g a b))"
    by simp
  moreover have "set (edges (link g a b)) \<subseteq>
      set (edges (connectNeighbors nx ny m a [(x, y + 1, z), (x, y, z + 1)] (link g a b)))"
    using connectNeighbors_grows by blast
  moreover have "gyroidConnect nx ny m (k, a) g =
      connectNeighbors nx ny m a [(x + 1, y, z), (x, y + 1, z), (x, y, z + 1)] g"
    by (simp only: gyroidConnect_def Let_def fst_conv snd_conv assms(1) option.case prod.case)
  moreover have "connectNeighbors nx ny m a [(x + 1, y, z), (x, y + 1, z), (x, y, z + 1)] g =
      connectNeighbors nx ny m a [(x, y + 1, z), (x, y, z + 1)] (link g a b)"
    by (simp only: connectNeighbors_Cons [of nx ny m a "x + 1" y z] assms(2) option.case)
  ultimately show ?thesis
    by auto
qed

lemma gyroid_pass_links_next:
  assumes "(k, a) \<in> set es" and "decodeGrid nx ny k = Some (x, y, z)"
    and "map_of m (idx nx ny (x + 1) y z) = Some b"
  shows "(a, b) \<in> set (edges (fold (gyroidConnect nx ny m) es g))"
proof (rule fold_covers [where K = "\<lambda>h. set (edges h)" and ?x0.0 = "(k, a)"])
  show "set (edges h) \<subseteq> set (edges (gyroidConnect nx ny m e h))" for e h
    using gyroidConnect_grows by blast
  show "(k, a) \<in> set es"
    by (rule assms)
  show "(a, b) \<in> set (edges (gyroidConnect nx ny m (k, a) h))" for h
    using assms(2,3) by (rule gyroidConnect_links_next)
qed

subsection \<open>The nodes of the gyroid are the kept grid points\<close>

lemma fold_pairs:
  "fold (\<lambda>x. fold (f x) ys) xs = fold (\<lambda>(x, y). f x y) (List.product xs ys)"
proof (induction xs)
  case Nil
  then show ?case by simp
next
  case (Cons x xs)
  have "fold (\<lambda>(x, y). f x y) (map (Pair x) ys) = fold (f x) ys"
    by (simp add: fold_map comp_def)
  then show ?case
    using Cons by simp
qed

lemma for3_product:
  "for3 xs ys zs body s =
     fold (\<lambda>(x, y, z). body x y z) (List.product xs (List.product ys zs)) s"
proof -
  have inner: "fold (\<lambda>y. fold (\<lambda>z. body x y z) zs) ys =
      fold (\<lambda>(y, z). body x y z) (List.product ys zs)" for x
    by (rule fold_pairs)
  have "for3 xs ys zs body s =
      fold (\<lambda>x. fold (\<lambda>(y, z). body x y z) (List.product ys zs)) xs s"
    by (simp only: for3_def inner)
  also have "\<dots> = fold (\<lambda>(x, y, z). body x y z) (List.product xs (List.product ys zs)) s"
    by (simp only: fold_pairs)
  finally show ?thesis .
qed

lemma gyroidCell_nodes:
  "nodes (fst (gyroidCell type params nx ny x y z s)) =
     nodes (fst s) @ (if gyroidKeep type params x y z then [gyroidPoint params x y z] else [])"
  by (simp add: gyroidCell_def Let_def split_beta)

lemma gyroid_scan_nodes:
  "nodes (fst (fold (\<lambda>(x, y, z). gyroidCell type params nx ny x y z) cs s)) =
     nodes (fst s) @ map (\<lambda>(x, y, z). gyroidPoint params x y z)
       (filter (\<lambda>(x, y, z). gyroidKeep type params x y z) cs)"
proof (induction cs arbitrary: s)
  case Nil
  then show ?case by simp
next
  case (Cons c cs)
  obtain x y z where c: "c = (x, y, z)"
    by (cases c) auto
  show ?case
    using Cons.IH [of "gyroidCell type params nx ny x y z s"]
    by (simp add: c gyroidCell_nodes)
qed

text \<open>
  The first half of claim C2: a grid point becomes a node exactly when it passes the
  classifier and the gyroid field is below 0.5 in absolute value (\<open>gyroidKeep\<close>), and
  the nodes come in the order of the scan.
\<close>

lemma generateVolumeGyroid_nodes:
  "nodes (generateVolumeGyroid g0 params type) =
     nodes g0 @ map (\<lambda>(x, y, z). gyroidPoint params x y z)
       (filter (\<lambda>(x, y, z). gyroidKeep type params x y z)
          (List.product [0..\<lceil>width params / 0.08\<rceil> + 2 - 1]
             (List.product [0..\<lceil>height params / 0.08\<rceil> + 2 - 1] [0..\<lceil>depth params / 0.08\<rceil> + 2 - 1])))"
proof -
  have "nodes (generateVolumeGyroid g0 params type) =
      nodes (fst (for3 [0..\<lceil>width params / 0.08\<rceil> + 2 - 1] [0..\<lceil>height params / 0.08\<rceil> + 2 - 1]
        [0..\<lceil>depth params / 0.08\<rceil> + 2 - 1]
        (gyroidCell type params (\<lceil>width params / 0.08\<rceil> + 2) (\<lceil>height params / 0.08\<rceil> + 2))
        (g0, [])))"
    unfolding generateVolumeGyroid_def Let_def using gyroidConnect_fold_grows by blast
  then show ?thesis
    by (simp add: for3_product gyroid_scan_nodes)
qed

subsection \<open>The edge across the boundary\<close>

text \<open>
  Claim C2 says that every gyroid edge joins a kept grid point to its neighbour at
  \<open>+x\<close>, \<open>+y\<close> or \<open>+z\<close>. On the stool with the dimensions the interface starts from
  (\<open>nx = 10\<close>, \<open>ny = 14\<close>, \<open>nz = 10\<close>) the generator returns an edge from the node at the
  grid point \<open>(9, 1, 5)\<close> to the node at the grid point \<open>(0, 2, 5)\<close>: the key of
  \<open>(9 + 1, 1, 5)\<close>, a point outside the grid, is the key of \<open>(0, 2, 5)\<close>. The two
  nodes lie at opposite faces of the bounding box.
\<close>

theorem gyroid_edge_across_boundary:
  "\<exists>a b.
     (a, b) \<in> set (edges (generateFurniture rnd Stool
        \<lparr>width = 0.6, height = 0.9, depth = 0.6, seatHeight = 0.45, pattern = Gyroid\<rparr>)) \<and>
     nodes (generateFurniture rnd Stool
        \<lparr>width = 0.6, height = 0.9, depth = 0.6, seatHeight = 0.45, pattern = Gyroid\<rparr>) ! nat a
       = Vector3 0.34 0 0.02 \<and>
     nodes (generateFurniture rnd Stool
        \<lparr>width = 0.6, height = 0.9, depth = 0.6, seatHeight = 0.45, pattern = Gyroid\<rparr>) ! nat b
       = Vector3 (- 0.38) 0.08 0.02 \<and>
     gyroidPoint \<lparr>width = 0.6, height = 0.9, depth = 0.6, seatHeight = 0.45, pattern = Gyroid\<rparr>
       9 1 5 = Vector3 0.34 0 0.02 \<and>
     gyroidPoint \<lparr>width = 0.6, height = 0.9, depth = 0.6, seatHeight = 0.45, pattern = Gyroid\<rparr>
       0 2 5 = Vector3 (- 0.38) 0.08 0.02"
proof -
  define p where
    "p = \<lparr>width = 0.6, height = 0.9, depth = 0.6, seatHeight = 0.45, pattern = Gyroid\<rparr>"
  define s where "s = for3 [0..9] [0..13] [0..9] (gyroidCell Stool p 10 14)
      (\<lparr>nodes = [], edges = []\<rparr>, [])"
  define G where "G = generateFurniture rnd Stool p"
  have dims: "width p = 0.6" "height p = 0.9" "depth p = 0.6"
    by (simp_all add: p_def)
  have G: "G = fold (gyroidConnect 10 14 (snd s)) (snd s) (fst s)"
    by (simp add: G_def generateFurniture_def generateVolumeGyroid_def Let_def s_def p_def)
  have ptA: "gyroidPoint p 9 1 5 = Vector3 0.34 0 0.02" and keepA: "gyroidKeep Stool p 9 1 5"
    using stool_keeps_A [OF dims] by simp_all
  have ptB: "gyroidPoint p 0 2 5 = Vector3 (- 0.38) 0.08 0.02"
    and keepB: "gyroidKeep Stool p 0 2 5"
    using stool_keeps_B [OF dims] by simp_all
  have ent: "gyroidEntries p 10 14 s"
    unfolding s_def
  proof (rule for3_invariant [where P = "gyroidEntries p 10 14"])
    show "gyroidEntries p 10 14 (\<lparr>nodes = [], edges = []\<rparr>, [])"
      by (simp add: gyroidEntries_def)
  next
    fix x y z and t :: "NetworkData \<times> nodeMap"
    assume "x \<in> set [0..9]" "y \<in> set [0..13]" "z \<in> set [0..9]" "gyroidEntries p 10 14 t"
    then show "gyroidEntries p 10 14 (gyroidCell Stool p 10 14 x y z t)"
      by (intro gyroidCell_entries) simp_all
  qed
  have keyA: "idx 10 14 9 1 5 \<in> fst ` set (snd s)"
    unfolding s_def
    by (rule for3_covers [where K = "\<lambda>t. fst ` set (snd t)" and ?x0.0 = 9 and ?y0.0 = 1
          and ?z0.0 = 5])
      (simp_all add: gyroidCell_keys gyroidCell_adds_key keepA)
  have keyB: "idx 10 14 0 2 5 \<in> fst ` set (snd s)"
    unfolding s_def
    by (rule for3_covers [where K = "\<lambda>t. fst ` set (snd t)" and ?x0.0 = 0 and ?y0.0 = 2
          and ?z0.0 = 5])
      (simp_all add: gyroidCell_keys gyroidCell_adds_key keepB)
  obtain a where a: "(idx 10 14 9 1 5, a) \<in> set (snd s)"
    using keyA by auto
  obtain b where b: "map_of (snd s) (idx 10 14 0 2 5) = Some b"
    using keyB by (cases "map_of (snd s) (idx 10 14 0 2 5)") (auto simp: map_of_eq_None_iff)
  then have b': "(idx 10 14 0 2 5, b) \<in> set (snd s)"
    by (rule map_of_SomeD)
  have decA: "decodeGrid 10 14 (idx 10 14 9 1 5) = Some (9, 1, 5)"
    by (rule decode_of_idx) simp_all
  have decB: "decodeGrid 10 14 (idx 10 14 0 2 5) = Some (0, 2, 5)"
    by (rule decode_of_idx) simp_all
  have nodeA: "nodes (fst s) ! nat a = Vector3 0.34 0 0.02"
    using ent a decA ptA by (auto simp: gyroidEntries_def list_all_iff)
  have nodeB: "nodes (fst s) ! nat b = Vector3 (- 0.38) 0.08 0.02"
    using ent b' decB ptB by (auto simp: gyroidEntries_def list_all_iff)
  have wrap: "idx 10 14 (9 + 1) 1 5 = idx 10 14 0 2 5"
    by (simp add: idx_def)
  have "(a, b) \<in> set (edges G)"
    unfolding G using a decA b unfolding wrap [symmetric]
    by (rule gyroid_pass_links_next)
  moreover have "nodes G = nodes (fst s)"
    unfolding G using gyroidConnect_fold_grows by blast
  ultimately have "(a, b) \<in> set (edges G) \<and> nodes G ! nat a = Vector3 0.34 0 0.02 \<and>
      nodes G ! nat b = Vector3 (- 0.38) 0.08 0.02 \<and>
      gyroidPoint p 9 1 5 = Vector3 0.34 0 0.02 \<and>
      gyroidPoint p 0 2 5 = Vector3 (- 0.38) 0.08 0.02"
    using nodeA nodeB ptA ptB by simp
  then show ?thesis
    unfolding G_def p_def by blast
qed

end
